theory Spec2Isabelle
  imports Main "HOL-Library.Char_ord" "HOL-Library.List_Lexorder"
begin

section \<open>Text and key normalisation\<close>

text \<open>
  Python strings are sequences of code points. They are modelled as \<open>string\<close> with each
  \<open>char\<close> read as one code point of the range 0..255 (Latin-1), the repertoire of the
  German names the bot stores. On this range \<open>str.strip\<close>, \<open>str.split\<close> and
  \<open>str.lower\<close> are the functions below, and \<open>str.lower\<close> does not leave the range.
\<close>

definition is_space :: "char \<Rightarrow> bool" where
  \<comment> \<open>the code points that \<open>str.isspace\<close>, \<open>str.strip()\<close> and \<open>str.split()\<close> treat as white space\<close>
  "is_space c = (let n = (of_char c :: nat)
                 in (9 \<le> n \<and> n \<le> 13) \<or> (28 \<le> n \<and> n \<le> 32) \<or> n = 133 \<or> n = 160)"

definition lower_char :: "char \<Rightarrow> char" where
  \<comment> \<open>\<open>A\<close>..\<open>Z\<close> and the capital letters U+00C0..U+00DE (without the sign U+00D7) have a
      lower-case partner 32 places above; every other code point of the range is kept\<close>
  "lower_char c = (let n = (of_char c :: nat)
                   in if (65 \<le> n \<and> n \<le> 90) \<or> (192 \<le> n \<and> n \<le> 222 \<and> n \<noteq> 215)
                      then char_of (n + 32) else c)"

definition lower :: "string \<Rightarrow> string" where
  "lower s = map lower_char s"

definition strip :: "string \<Rightarrow> string" where
  "strip s = rev (dropWhile is_space (rev (dropWhile is_space s)))"

fun split_from :: "string \<Rightarrow> string \<Rightarrow> string list" where
  \<comment> \<open>\<open>split_from cs w\<close>: the words of \<open>cs\<close>, where \<open>w\<close> holds, reversed, the characters of
      the word being read\<close>
  "split_from [] w = (if w = [] then [] else [rev w])"
| "split_from (c # cs) w =
     (if is_space c then (if w = [] then split_from cs [] else rev w # split_from cs [])
      else split_from cs (c # w))"

definition split :: "string \<Rightarrow> string list" where
  \<comment> \<open>\<open>s.split()\<close>: the maximal runs of characters that are not white space\<close>
  "split s = split_from s []"

fun join :: "string \<Rightarrow> string list \<Rightarrow> string" where
  "join sep [] = []"
| "join sep [w] = w"
| "join sep (w # v # ws) = w @ sep @ join sep (v # ws)"

definition norm_key :: "string \<Rightarrow> string" where
  \<comment> \<open>\<open>" ".join(s.strip().split()).lower()\<close>\<close>
  "norm_key s = lower (join '' '' (split (strip s)))"

section \<open>Configuration\<close>

definition TYPE_FBH :: string where "TYPE_FBH = ''FBH''"
definition TYPE_KL :: string where "TYPE_KL = ''KL''"

definition DEFAULT_FBH_SMELL_DAYS :: int where "DEFAULT_FBH_SMELL_DAYS = 7"
definition DEFAULT_FBH_RUIN_DAYS :: int where "DEFAULT_FBH_RUIN_DAYS = 14"

definition Blattfrische :: string where "Blattfrische = ''Blattfrische''"
definition Blattfall :: string where "Blattfall = ''Blattfall''"
definition Blattleere :: string where "Blattleere = ''Blattleere''"
definition Blattgruene :: string where
  \<comment> \<open>the summer season; its u-umlaut is the code point 252\<close>
  "Blattgruene = ''Blattgr'' @ [char_of (252 :: nat)] @ ''ne''"

definition SAISON_TIMES :: "(string \<times> int \<times> int) list" where
  \<comment> \<open>the dictionary season \<rightarrow> (smell days, ruin days), read with \<open>map_of\<close>\<close>
  "SAISON_TIMES =
     [(Blattfrische, (4, 7)), (Blattfall, (4, 7)), (Blattleere, (7, 10)), (Blattgruene, (2, 5))]"

text \<open>
  \<open>config.json\<close> is not part of the sources; its three entries that the ledger reads are
  parameters of the model.
\<close>

record config =
  allowed_fbh_prey :: "string list"
  allowed_kl_herbs :: "string list"
  kl_rezepte :: "(string \<times> (string \<times> int) list) list"

definition stripped_nonempty :: "string list \<Rightarrow> string list" where
  \<comment> \<open>\<open>[x.strip() for x in xs if x.strip()]\<close>\<close>
  "stripped_nonempty xs = map strip (filter (\<lambda>x. strip x \<noteq> []) xs)"

definition ALLOWED_FBH_PREY :: "config \<Rightarrow> string list" where
  "ALLOWED_FBH_PREY cfg = stripped_nonempty (allowed_fbh_prey cfg)"

definition ALLOWED_KL_HERBS :: "config \<Rightarrow> string list" where
  "ALLOWED_KL_HERBS cfg = stripped_nonempty (allowed_kl_herbs cfg)"

definition KL_RECIPES :: "config \<Rightarrow> (string \<times> (string \<times> int) list) list" where
  "KL_RECIPES cfg = kl_rezepte cfg"

definition allowed_map_of :: "string list \<Rightarrow> (string \<rightharpoonup> string)" where
  \<comment> \<open>\<open>{norm_key(x): x for x in xs}\<close>: a later entry of \<open>xs\<close> replaces an earlier one with
      the same key\<close>
  "allowed_map_of xs = map_of (rev (map (\<lambda>x. (norm_key x, x)) xs))"

definition ALLOWED_FBH_SET :: "config \<Rightarrow> (string \<rightharpoonup> string)" where
  "ALLOWED_FBH_SET cfg = allowed_map_of (ALLOWED_FBH_PREY cfg)"

definition ALLOWED_KL_SET :: "config \<Rightarrow> (string \<rightharpoonup> string)" where
  "ALLOWED_KL_SET cfg = allowed_map_of (ALLOWED_KL_HERBS cfg)"

definition is_allowed :: "string \<Rightarrow> (string \<rightharpoonup> string) \<Rightarrow> bool" where
  \<comment> \<open>\<open>norm_key(name) in allowed_map\<close>\<close>
  "is_allowed name allowed_map = (allowed_map (norm_key name) \<noteq> None)"

definition canonical :: "string \<Rightarrow> (string \<rightharpoonup> string) \<Rightarrow> string" where
  "canonical name allowed_map =
     (case allowed_map (norm_key name) of Some x \<Rightarrow> x | None \<Rightarrow> strip name)"

section \<open>Spoilage classification\<close>

datatype status = Frisch_status | Mueffelt | Verdorben

definition fbh_status_for_age_days :: "int \<Rightarrow> string \<Rightarrow> bool \<Rightarrow> status" where
  "fbh_status_for_age_days age_days saison saison_enabled =
     (let (smell_days, ruin_days) =
            (if saison_enabled
             then (case map_of SAISON_TIMES saison of
                     Some p \<Rightarrow> p
                   | None \<Rightarrow> (DEFAULT_FBH_SMELL_DAYS, DEFAULT_FBH_RUIN_DAYS))
             else (DEFAULT_FBH_SMELL_DAYS, DEFAULT_FBH_RUIN_DAYS))
      in if age_days \<ge> ruin_days then Verdorben
         else if age_days \<ge> smell_days then Mueffelt
         else Frisch_status)"

text \<open>
  The classification in the words of the specification, for a given pair of thresholds:
  at or above the ruin age Ruined, otherwise at or above the smell age Smelly, otherwise
  Fresh.
\<close>

definition classify :: "int \<Rightarrow> int \<Rightarrow> int \<Rightarrow> status" where
  "classify smell ruin age =
     (if age \<ge> ruin then Verdorben else if age \<ge> smell then Mueffelt else Frisch_status)"

section \<open>The database\<close>

text \<open>
  Each table is the list of its rows in insertion order. The tables \<open>fbh_batches\<close> and
  \<open>kl_herb_lots\<close> have an \<open>AUTOINCREMENT\<close> key: \<open>fbh_seq\<close> and \<open>kl_seq\<close> hold the
  largest key given out so far. The column \<open>state\<close> holds one of the two texts of the
  schema's comment. The table \<open>storages\<close> is read only to resolve a storage name
  before any of the operations below; they take the resolved \<open>storage_id\<close>.
\<close>

datatype lot_state = Frisch | Getrocknet

record fbh_batch =
  b_id :: nat
  b_storage_id :: nat
  b_item_key :: string
  b_item_display :: string
  b_qty :: int
  b_added_at :: int
  b_added_by :: nat

record kl_herb_lot =
  l_id :: nat
  l_storage_id :: nat
  l_herb_key :: string
  l_herb_display :: string
  l_qty :: int
  l_state :: lot_state
  l_added_at :: int
  l_added_by :: nat

record kl_pantry_row =
  p_storage_id :: nat
  p_item_key :: string
  p_item_display :: string
  p_qty :: int
  p_updated_at :: int
  p_updated_by :: nat

record settings =
  s_saison :: string
  s_fbh_saison_verderb :: bool
  s_kl_trocknen :: bool

record db =
  fbh_batches :: "fbh_batch list"
  fbh_seq :: nat
  kl_herb_lots :: "kl_herb_lot list"
  kl_seq :: nat
  kl_pantry :: "kl_pantry_row list"
  guild_settings :: "(nat \<times> settings) list"

definition nocase :: "string \<Rightarrow> string" where
  \<comment> \<open>the sort key of \<open>COLLATE NOCASE\<close>: the 26 letters \<open>A\<close>..\<open>Z\<close> folded to lower case\<close>
  "nocase s = map (\<lambda>c. let n = (of_char c :: nat)
                          in if 65 \<le> n \<and> n \<le> 90 then char_of (n + 32) else c) s"

subsection \<open>Settings\<close>

definition default_settings :: settings where
  "default_settings = \<lparr>s_saison = Blattfrische, s_fbh_saison_verderb = False, s_kl_trocknen = False\<rparr>"

definition ensure_settings :: "nat \<Rightarrow> db \<Rightarrow> db" where
  \<comment> \<open>\<open>INSERT OR IGNORE INTO guild_settings (guild_id) VALUES (?)\<close>\<close>
  "ensure_settings guild_id d =
     (if map_of (guild_settings d) guild_id = None
      then d\<lparr>guild_settings := guild_settings d @ [(guild_id, default_settings)]\<rparr>
      else d)"

definition get_settings :: "nat \<Rightarrow> db \<Rightarrow> settings \<times> db" where
  \<comment> \<open>the row is there after \<open>ensure_settings\<close>; the branch \<open>None\<close> is never taken\<close>
  "get_settings guild_id d =
     (let d1 = ensure_settings guild_id d
      in case map_of (guild_settings d1) guild_id of
           Some row \<Rightarrow> (row, d1)
         | None \<Rightarrow> (default_settings, d1))"

subsection \<open>Batches of a perishable storage\<close>

definition fbh_add :: "nat \<Rightarrow> string \<Rightarrow> int \<Rightarrow> nat \<Rightarrow> int \<Rightarrow> db \<Rightarrow> db" where
  \<comment> \<open>\<open>now\<close> is the value of \<open>now_ts()\<close> at the call\<close>
  "fbh_add storage_id item_display qty user_id now d =
     (let k = norm_key item_display
      in d\<lparr>fbh_batches := fbh_batches d @
              [\<lparr>b_id = fbh_seq d + 1, b_storage_id = storage_id, b_item_key = k,
                b_item_display = strip item_display, b_qty = qty, b_added_at = now,
                b_added_by = user_id\<rparr>],
            fbh_seq := fbh_seq d + 1\<rparr>)"

definition fbh_total :: "nat \<Rightarrow> db \<Rightarrow> (string \<times> int) list" where
  \<comment> \<open>\<open>GROUP BY item_key\<close>: one row per key with the sum of its quantities; SQLite takes
      the bare column \<open>item_display\<close> from a row of the group that it does not specify,
      here the first\<close>
  "fbh_total storage_id d =
     (let rows = filter (\<lambda>r. b_storage_id r = storage_id) (fbh_batches d);
          groups = map (\<lambda>k. let g = filter (\<lambda>r. b_item_key r = k) rows
                             in (b_item_display (hd g), sum_list (map b_qty g)))
                       (remdups (map b_item_key rows));
          ordered = sort_key (\<lambda>r. nocase (fst r)) groups
      in filter (\<lambda>r. snd r > 0) ordered)"

fun fbh_take_loop :: "(nat \<times> int) list \<Rightarrow> int \<Rightarrow> int \<Rightarrow> db \<Rightarrow> int \<times> db" where
  "fbh_take_loop [] to_remove removed d = (removed, d)"
| "fbh_take_loop ((batch_id, batch_qty) # batches) to_remove removed d =
     (if to_remove \<le> 0 then (removed, d)
      else let take = min batch_qty to_remove;
               new_qty = batch_qty - take
           in fbh_take_loop batches (to_remove - take) (removed + take)
                (if new_qty \<le> 0
                 then d\<lparr>fbh_batches := filter (\<lambda>r. b_id r \<noteq> batch_id) (fbh_batches d)\<rparr>
                 else d\<lparr>fbh_batches :=
                          map (\<lambda>r. if b_id r = batch_id then r\<lparr>b_qty := new_qty\<rparr> else r)
                              (fbh_batches d)\<rparr>))"

definition fbh_take :: "nat \<Rightarrow> string \<Rightarrow> int \<Rightarrow> db \<Rightarrow> int \<times> db" where
  \<comment> \<open>returns the removed amount and the database after the take; \<open>ORDER BY added_at ASC\<close>
      is a stable sort of the rows in key order\<close>
  "fbh_take storage_id item_display qty d =
     (let k = norm_key item_display;
          batches = map (\<lambda>r. (b_id r, b_qty r))
                      (sort_key b_added_at
                         (filter (\<lambda>r. b_storage_id r = storage_id \<and> b_item_key r = k)
                                 (fbh_batches d)))
      in fbh_take_loop batches qty 0 d)"

definition fbh_batches_for_status :: "nat \<Rightarrow> db \<Rightarrow> (string \<times> int \<times> int) list" where
  "fbh_batches_for_status storage_id d =
     map (\<lambda>r. (b_item_display r, b_qty r, b_added_at r))
       (sort_key b_added_at (filter (\<lambda>r. b_storage_id r = storage_id) (fbh_batches d)))"

subsection \<open>Lots of a material storage\<close>

definition kl_mark_dried_older_than :: "nat \<Rightarrow> int \<Rightarrow> db \<Rightarrow> db" where
  "kl_mark_dried_older_than storage_id cutoff_ts d =
     d\<lparr>kl_herb_lots :=
         map (\<lambda>r. if l_storage_id r = storage_id \<and> l_state r = Frisch \<and> l_added_at r \<le> cutoff_ts
                  then r\<lparr>l_state := Getrocknet\<rparr> else r)
             (kl_herb_lots d)\<rparr>"

definition kl_add_herb :: "nat \<Rightarrow> string \<Rightarrow> int \<Rightarrow> nat \<Rightarrow> int \<Rightarrow> db \<Rightarrow> db" where
  "kl_add_herb storage_id herb_display qty user_id now d =
     (let k = norm_key herb_display
      in d\<lparr>kl_herb_lots := kl_herb_lots d @
              [\<lparr>l_id = kl_seq d + 1, l_storage_id = storage_id, l_herb_key = k,
                l_herb_display = strip herb_display, l_qty = qty, l_state = Frisch,
                l_added_at = now, l_added_by = user_id\<rparr>],
            kl_seq := kl_seq d + 1\<rparr>)"

definition kl_total_available :: "nat \<Rightarrow> string \<Rightarrow> db \<Rightarrow> int" where
  \<comment> \<open>\<open>SUM(qty)\<close> is \<open>NULL\<close> over no rows, which \<open>int(row[0] or 0)\<close> reads as 0\<close>
  "kl_total_available storage_id herb_key d =
     sum_list (map l_qty
       (filter (\<lambda>r. l_storage_id r = storage_id \<and> l_herb_key r = herb_key) (kl_herb_lots d)))"

fun kl_take_loop :: "(nat \<times> int) list \<Rightarrow> int \<Rightarrow> int \<Rightarrow> db \<Rightarrow> int \<times> int \<times> db" where
  \<comment> \<open>the inner loop; returns \<open>to_remove\<close>, \<open>removed\<close> and the database\<close>
  "kl_take_loop [] to_remove removed d = (to_remove, removed, d)"
| "kl_take_loop ((lot_id, lot_qty) # lots) to_remove removed d =
     (if to_remove \<le> 0 then (to_remove, removed, d)
      else let take = min lot_qty to_remove;
               new_qty = lot_qty - take
           in kl_take_loop lots (to_remove - take) (removed + take)
                (if new_qty \<le> 0
                 then d\<lparr>kl_herb_lots := filter (\<lambda>r. l_id r \<noteq> lot_id) (kl_herb_lots d)\<rparr>
                 else d\<lparr>kl_herb_lots :=
                          map (\<lambda>r. if l_id r = lot_id then r\<lparr>l_qty := new_qty\<rparr> else r)
                              (kl_herb_lots d)\<rparr>))"

fun kl_take_states :: "lot_state list \<Rightarrow> nat \<Rightarrow> string \<Rightarrow> int \<Rightarrow> int \<Rightarrow> db \<Rightarrow> int \<times> db" where
  \<comment> \<open>the outer loop over the states; the lots of a state are read when its turn comes\<close>
  "kl_take_states [] storage_id k to_remove removed d = (removed, d)"
| "kl_take_states (state # states) storage_id k to_remove removed d =
     (if to_remove \<le> 0 then (removed, d)
      else let lots = map (\<lambda>r. (l_id r, l_qty r))
                        (sort_key l_added_at
                           (filter (\<lambda>r. l_storage_id r = storage_id \<and> l_herb_key r = k
                                         \<and> l_state r = state)
                                   (kl_herb_lots d)))
           in case kl_take_loop lots to_remove removed d of
                (to_remove', removed', d') \<Rightarrow>
                  kl_take_states states storage_id k to_remove' removed' d')"

definition kl_take_herb :: "nat \<Rightarrow> string \<Rightarrow> int \<Rightarrow> db \<Rightarrow> int \<times> db" where
  "kl_take_herb storage_id herb_display qty d =
     kl_take_states [Frisch, Getrocknet] storage_id (norm_key herb_display) qty 0 d"

subsection \<open>Pantry\<close>

definition pantry_add :: "nat \<Rightarrow> string \<Rightarrow> int \<Rightarrow> nat \<Rightarrow> int \<Rightarrow> db \<Rightarrow> db" where
  "pantry_add storage_id item_display qty user_id now d =
     (let k = norm_key item_display
      in case find (\<lambda>r. p_storage_id r = storage_id \<and> p_item_key r = k) (kl_pantry d) of
           Some row \<Rightarrow>
             (let new_qty = p_qty row + qty
              in d\<lparr>kl_pantry :=
                     map (\<lambda>r. if p_storage_id r = storage_id \<and> p_item_key r = k
                              then r\<lparr>p_qty := new_qty, p_updated_at := now,
                                     p_updated_by := user_id\<rparr>
                              else r)
                         (kl_pantry d)\<rparr>)
         | None \<Rightarrow>
             d\<lparr>kl_pantry := kl_pantry d @
                  [\<lparr>p_storage_id = storage_id, p_item_key = k,
                    p_item_display = strip item_display, p_qty = qty, p_updated_at = now,
                    p_updated_by = user_id\<rparr>]\<rparr>)"

definition pantry_take :: "nat \<Rightarrow> string \<Rightarrow> int \<Rightarrow> db \<Rightarrow> int \<times> db" where
  "pantry_take storage_id item_display qty d =
     (let k = norm_key item_display
      in case find (\<lambda>r. p_storage_id r = storage_id \<and> p_item_key r = k) (kl_pantry d) of
           None \<Rightarrow> (0, d)
         | Some row \<Rightarrow>
             (let have = p_qty row;
                  take = min have qty;
                  new_qty = have - take
              in if new_qty \<le> 0
                 then (take, d\<lparr>kl_pantry :=
                                 filter (\<lambda>r. \<not> (p_storage_id r = storage_id \<and> p_item_key r = k))
                                        (kl_pantry d)\<rparr>)
                 else (take, d\<lparr>kl_pantry :=
                                 map (\<lambda>r. if p_storage_id r = storage_id \<and> p_item_key r = k
                                          then r\<lparr>p_qty := new_qty\<rparr> else r)
                                     (kl_pantry d)\<rparr>)))"

definition pantry_list :: "nat \<Rightarrow> db \<Rightarrow> (string \<times> int) list" where
  "pantry_list storage_id d =
     filter (\<lambda>r. snd r > 0)
       (sort_key (\<lambda>r. nocase (fst r))
          (map (\<lambda>r. (p_item_display r, p_qty r))
               (filter (\<lambda>r. p_storage_id r = storage_id) (kl_pantry d))))"

section \<open>Requests\<close>

definition kl_apply_drying_if_enabled :: "nat \<Rightarrow> nat \<Rightarrow> int \<Rightarrow> db \<Rightarrow> db" where
  "kl_apply_drying_if_enabled guild_id storage_id now d =
     (case get_settings guild_id d of
        (settings, d1) \<Rightarrow>
          if \<not> s_kl_trocknen settings then d1
          else let cutoff = now - 7 * 24 * 60 * 60
               in kl_mark_dried_older_than storage_id cutoff d1)"

subsection \<open>Showing a perishable storage\<close>

fun status_flags ::
  "(string \<times> int \<times> int) list \<Rightarrow> int \<Rightarrow> string \<Rightarrow> bool \<Rightarrow> bool \<Rightarrow> bool \<Rightarrow> bool \<times> bool" where
  \<comment> \<open>the loop over the batches; returns \<open>ruined_any\<close> and \<open>smelly_any\<close>\<close>
  "status_flags [] now saison enabled ruined_any smelly_any = (ruined_any, smelly_any)"
| "status_flags ((name, qty, added_at) # batches) now saison enabled ruined_any smelly_any =
     (let age_days = (now - added_at) div (24 * 60 * 60);
          st = fbh_status_for_age_days age_days saison enabled
      in if st = Verdorben then status_flags batches now saison enabled True smelly_any
         else if st = Mueffelt then status_flags batches now saison enabled ruined_any True
         else status_flags batches now saison enabled ruined_any smelly_any)"

datatype overall = VERDORBEN | MUEFFELT | FRISCH

datatype fbh_response =
    Lager_leer
  | FBH_Inventar string bool overall "(string \<times> int) list"

definition inventar_anzeigen_fbh :: "nat \<Rightarrow> nat \<Rightarrow> int \<Rightarrow> db \<Rightarrow> fbh_response \<times> db" where
  \<comment> \<open>the branch \<open>typ == TYPE_FBH\<close> of \<open>inventar_anzeigen\<close>, after the storage is resolved;
      the answer holds what the message shows: season, seasonal mode, status, totals\<close>
  "inventar_anzeigen_fbh guild_id storage_id now d =
     (case get_settings guild_id d of
        (settings, d1) \<Rightarrow>
          let totals = fbh_total storage_id d1
          in if totals = [] then (Lager_leer, d1)
             else let batches = fbh_batches_for_status storage_id d1;
                      saison = s_saison settings;
                      enabled = s_fbh_saison_verderb settings
                  in case status_flags batches now saison enabled False False of
                       (ruined_any, smelly_any) \<Rightarrow>
                         (FBH_Inventar saison enabled
                            (if ruined_any then VERDORBEN
                             else if smelly_any then MUEFFELT else FRISCH)
                            totals, d1))"

subsection \<open>Crafting a recipe\<close>

datatype missing_entry =
    Nicht_erlaubt string
  | Fehlt string int int int

datatype craft_response =
    Menge_nicht_positiv
  | Rezept_nicht_gefunden
  | Nicht_genug_Zutaten "missing_entry list"
  | Unerwarteter_Fehler
  | Hergestellt string int

fun check_availability ::
  "(string \<rightharpoonup> string) \<Rightarrow> nat \<Rightarrow> int \<Rightarrow> (string \<times> int) list \<Rightarrow> db \<Rightarrow> missing_entry list" where
  \<comment> \<open>the first loop over \<open>recipe.items()\<close>; \<open>Fehlt name (need - have) need have\<close> stands for
      the text "name: fehlt .. (braucht .., hat ..)"\<close>
  "check_availability allowed storage_id menge [] d = []"
| "check_availability allowed storage_id menge ((herb_name, base_qty) # items) d =
     (if \<not> is_allowed herb_name allowed
      then Nicht_erlaubt herb_name # check_availability allowed storage_id menge items d
      else let herb_key = norm_key herb_name;
               need = base_qty * menge;
               have = kl_total_available storage_id herb_key d
           in if have < need
              then Fehlt herb_name (need - have) need have
                     # check_availability allowed storage_id menge items d
              else check_availability allowed storage_id menge items d)"

fun subtract_ingredients ::
  "(string \<rightharpoonup> string) \<Rightarrow> nat \<Rightarrow> int \<Rightarrow> (string \<times> int) list \<Rightarrow> db \<Rightarrow> bool \<times> db" where
  \<comment> \<open>the second loop; \<open>False\<close> when a take returned another amount than was needed\<close>
  "subtract_ingredients allowed storage_id menge [] d = (True, d)"
| "subtract_ingredients allowed storage_id menge ((herb_name, base_qty) # items) d =
     (let herb_canon = canonical herb_name allowed;
          need = base_qty * menge
      in case kl_take_herb storage_id herb_canon need d of
           (removed, d') \<Rightarrow>
             if removed \<noteq> need then (False, d')
             else subtract_ingredients allowed storage_id menge items d')"

definition kl_herstellen ::
  "config \<Rightarrow> nat \<Rightarrow> nat \<Rightarrow> nat \<Rightarrow> string \<Rightarrow> int \<Rightarrow> int \<Rightarrow> db \<Rightarrow> craft_response \<times> db" where
  \<comment> \<open>\<open>kl_herstellen\<close> after the storage is resolved and the access granted; a recipe is
      the list of the items of its dictionary, in the dictionary's order\<close>
  "kl_herstellen cfg guild_id storage_id user_id rezept menge now d =
     (if menge \<le> 0 then (Menge_nicht_positiv, d)
      else case map_of (KL_RECIPES cfg) rezept of
             None \<Rightarrow> (Rezept_nicht_gefunden, d)
           | Some recipe \<Rightarrow>
               (let d1 = kl_apply_drying_if_enabled guild_id storage_id now d;
                    missing = check_availability (ALLOWED_KL_SET cfg) storage_id menge recipe d1
                in if missing \<noteq> [] then (Nicht_genug_Zutaten missing, d1)
                   else case subtract_ingredients (ALLOWED_KL_SET cfg) storage_id menge recipe d1 of
                          (False, d2) \<Rightarrow> (Unerwarteter_Fehler, d2)
                        | (True, d2) \<Rightarrow>
                            (Hergestellt rezept menge,
                             pantry_add storage_id rezept menge user_id now d2)))"

section \<open>Notions used to state the properties\<close>

subsection \<open>Schema constraints and the data invariant\<close>

definition keys_ok :: "db \<Rightarrow> bool" where
  \<comment> \<open>the primary keys of the schema: row keys are unique and were given out by the
      sequence; the pantry has one row per storage and item key\<close>
  "keys_ok d =
     (distinct (map b_id (fbh_batches d)) \<and> list_all (\<lambda>r. b_id r \<le> fbh_seq d) (fbh_batches d)
      \<and> distinct (map l_id (kl_herb_lots d)) \<and> list_all (\<lambda>r. l_id r \<le> kl_seq d) (kl_herb_lots d)
      \<and> distinct (map (\<lambda>r. (p_storage_id r, p_item_key r)) (kl_pantry d)))"

definition quantities_positive :: "db \<Rightarrow> bool" where
  "quantities_positive d =
     (list_all (\<lambda>r. 0 < b_qty r) (fbh_batches d)
      \<and> list_all (\<lambda>r. 0 < l_qty r) (kl_herb_lots d)
      \<and> list_all (\<lambda>r. 0 < p_qty r) (kl_pantry d))"

definition empty_db :: db where
  "empty_db = \<lparr>fbh_batches = [], fbh_seq = 0, kl_herb_lots = [], kl_seq = 0, kl_pantry = [],
               guild_settings = []\<rparr>"

subsection \<open>First in, first out\<close>

text \<open>
  \<open>drain\<close> is the loop that \<open>fbh_take\<close> and \<open>kl_take_herb\<close> share, on a table alone.
  \<open>fifo_share order t x\<close> is what the row \<open>x\<close> gives to a request of \<open>t\<close> when the rows
  are asked in the order \<open>order\<close>: what is left of the request once every row before
  \<open>x\<close> has given all it holds, and no more than \<open>x\<close> holds. \<open>fifo_table\<close> is the table
  after every row of \<open>order\<close> has given its share: a row that gave all is gone, a row
  that gave a part holds the rest, in its place, and any other row is as it was.
\<close>

fun drain :: "('r \<Rightarrow> nat) \<Rightarrow> (int \<Rightarrow> 'r \<Rightarrow> 'r) \<Rightarrow> (nat \<times> int) list \<Rightarrow> int \<Rightarrow> int \<Rightarrow> 'r list
                \<Rightarrow> int \<times> int \<times> 'r list" where
  "drain idf upd [] t r T = (t, r, T)"
| "drain idf upd ((i, q) # bs) t r T =
     (if t \<le> 0 then (t, r, T)
      else let take = min q t; new = q - take
           in drain idf upd bs (t - take) (r + take)
                (if new \<le> 0 then filter (\<lambda>x. idf x \<noteq> i) T
                 else map (\<lambda>x. if idf x = i then upd new x else x) T))"

definition fifo_share :: "('r \<Rightarrow> nat) \<Rightarrow> ('r \<Rightarrow> int) \<Rightarrow> 'r list \<Rightarrow> int \<Rightarrow> 'r \<Rightarrow> int" where
  "fifo_share idf qf order t x =
     min (qf x) (max 0 (t - sum_list (map qf (takeWhile (\<lambda>y. idf y \<noteq> idf x) order))))"

definition fifo_table ::
  "('r \<Rightarrow> nat) \<Rightarrow> ('r \<Rightarrow> int) \<Rightarrow> (int \<Rightarrow> 'r \<Rightarrow> 'r) \<Rightarrow> 'r list \<Rightarrow> int \<Rightarrow> 'r list \<Rightarrow> 'r list" where
  "fifo_table idf qf upd order t T =
     List.map_filter
       (\<lambda>x. if idf x \<in> idf ` set order
            then (let c = fifo_share idf qf order t x
                  in if qf x - c \<le> 0 then None else Some (upd (qf x - c) x))
            else Some x) T"

definition set_b_qty :: "int \<Rightarrow> fbh_batch \<Rightarrow> fbh_batch" where
  "set_b_qty n r = r\<lparr>b_qty := n\<rparr>"

definition set_l_qty :: "int \<Rightarrow> kl_herb_lot \<Rightarrow> kl_herb_lot" where
  "set_l_qty n r = r\<lparr>l_qty := n\<rparr>"

definition fbh_rows :: "nat \<Rightarrow> string \<Rightarrow> db \<Rightarrow> fbh_batch list" where
  \<comment> \<open>the batches of a storage and item key, in table order\<close>
  "fbh_rows storage_id k d =
     filter (\<lambda>r. b_storage_id r = storage_id \<and> b_item_key r = k) (fbh_batches d)"

definition fbh_order :: "nat \<Rightarrow> string \<Rightarrow> db \<Rightarrow> fbh_batch list" where
  \<comment> \<open>the same batches, oldest first\<close>
  "fbh_order storage_id k d = sort_key b_added_at (fbh_rows storage_id k d)"

definition fbh_key_total :: "nat \<Rightarrow> string \<Rightarrow> db \<Rightarrow> int" where
  "fbh_key_total storage_id k d = sum_list (map b_qty (fbh_rows storage_id k d))"

definition kl_rows :: "nat \<Rightarrow> string \<Rightarrow> lot_state \<Rightarrow> db \<Rightarrow> kl_herb_lot list" where
  \<comment> \<open>the lots of a storage, herb key and state, in table order\<close>
  "kl_rows storage_id k st d =
     filter (\<lambda>r. l_storage_id r = storage_id \<and> l_herb_key r = k \<and> l_state r = st) (kl_herb_lots d)"

definition kl_order :: "nat \<Rightarrow> string \<Rightarrow> db \<Rightarrow> kl_herb_lot list" where
  \<comment> \<open>the lots of a storage and herb key: the fresh ones, oldest first, then the dried
      ones, oldest first\<close>
  "kl_order storage_id k d =
     sort_key l_added_at (kl_rows storage_id k Frisch d)
     @ sort_key l_added_at (kl_rows storage_id k Getrocknet d)"

subsection \<open>Example databases\<close>

definition batches_3_then_5 :: db where
  \<comment> \<open>storage 3 after a batch of 3 at time 100 and a batch of 5 at time 200\<close>
  "batches_3_then_5 = fbh_add 3 ''Maus'' 5 7 200 (fbh_add 3 ''Maus'' 3 7 100 empty_db)"

definition batches_1_and_3 :: db where
  \<comment> \<open>storage 3 with 4 of a key in two batches, and a batch of another key\<close>
  "batches_1_and_3 =
     fbh_add 3 ''Maus'' 3 7 300 (fbh_add 3 ''Fisch'' 2 7 200 (fbh_add 3 '' maus'' 1 8 100 empty_db))"

definition lots_fresh_and_dried :: db where
  \<comment> \<open>storage 3 with a dried lot of 2 and a younger fresh lot of 4 of one herb, a lot of
      another herb, a lot in storage 5, a batch and a pantry row\<close>
  "lots_fresh_and_dried =
     pantry_add 3 ''Reisekraut'' 1 7 70
       (fbh_add 3 ''Maus'' 2 7 60
          (kl_add_herb 5 ''Minze'' 6 7 50
             (kl_add_herb 3 ''Salbei'' 3 7 40
                (kl_add_herb 3 ''Minze'' 4 7 30
                   (kl_mark_dried_older_than 3 20
                      (kl_add_herb 3 ''Minze'' 2 7 10 empty_db))))))"

definition kl_state_total :: "nat \<Rightarrow> string \<Rightarrow> lot_state \<Rightarrow> db \<Rightarrow> int" where
  "kl_state_total storage_id k st d = sum_list (map l_qty (kl_rows storage_id k st d))"

definition dries :: "nat \<Rightarrow> int \<Rightarrow> kl_herb_lot \<Rightarrow> bool" where
  \<comment> \<open>the lots that an aging of the storage with this cutoff turns: fresh, and added at
      or before the cutoff\<close>
  "dries storage_id cutoff_ts r =
     (l_storage_id r = storage_id \<and> l_state r = Frisch \<and> l_added_at r \<le> cutoff_ts)"

definition one_fresh_lot :: db where
  \<comment> \<open>guild 9 has switched drying on; storage 3 holds one lot of 4, added at time 1000\<close>
  "one_fresh_lot =
     (kl_add_herb 3 ''Minze'' 4 7 1000 empty_db)
       \<lparr>guild_settings := [(9, default_settings\<lparr>s_kl_trocknen := True\<rparr>)]\<rparr>"

definition batch_status :: "int \<Rightarrow> settings \<Rightarrow> fbh_batch \<Rightarrow> status" where
  \<comment> \<open>the status of one batch at the time \<open>now\<close> under the guild's settings\<close>
  "batch_status now st r =
     fbh_status_for_age_days ((now - b_added_at r) div (24 * 60 * 60))
       (s_saison st) (s_fbh_saison_verderb st)"

definition fbh_keys :: "nat \<Rightarrow> db \<Rightarrow> string list" where
  \<comment> \<open>the item keys that have a batch in the storage\<close>
  "fbh_keys storage_id d =
     remdups (map b_item_key (filter (\<lambda>r. b_storage_id r = storage_id) (fbh_batches d)))"

definition batches_aged_3_and_20 :: db where
  \<comment> \<open>storage 3 at the time 2000000: a batch added 3 days ago and one added 20 days ago\<close>
  "batches_aged_3_and_20 =
     fbh_add 3 ''Maus'' 2 7 (2000000 - 3 * 86400)
       (fbh_add 3 ''Fisch'' 1 7 (2000000 - 20 * 86400) empty_db)"

subsection \<open>Sequences of ledger operations\<close>

datatype ledger_op =
    Fbh_add nat string int nat int
  | Fbh_take nat string int
  | Kl_add nat string int nat int
  | Kl_take nat string int
  | Kl_dry nat int
  | Pantry_add nat string int nat int
  | Pantry_take nat string int

fun apply_op :: "ledger_op \<Rightarrow> db \<Rightarrow> db" where
  "apply_op (Fbh_add sid name qty user now) d = fbh_add sid name qty user now d"
| "apply_op (Fbh_take sid name qty) d = snd (fbh_take sid name qty d)"
| "apply_op (Kl_add sid name qty user now) d = kl_add_herb sid name qty user now d"
| "apply_op (Kl_take sid name qty) d = snd (kl_take_herb sid name qty d)"
| "apply_op (Kl_dry sid cutoff) d = kl_mark_dried_older_than sid cutoff d"
| "apply_op (Pantry_add sid name qty user now) d = pantry_add sid name qty user now d"
| "apply_op (Pantry_take sid name qty) d = snd (pantry_take sid name qty d)"

fun adds_positive :: "ledger_op \<Rightarrow> bool" where
  "adds_positive (Fbh_add sid name qty user now) = (0 < qty)"
| "adds_positive (Kl_add sid name qty user now) = (0 < qty)"
| "adds_positive (Pantry_add sid name qty user now) = (0 < qty)"
| "adds_positive _ = True"

definition run_ops :: "ledger_op list \<Rightarrow> db \<Rightarrow> db" where
  \<comment> \<open>the operations one after the other, the first of the list first\<close>
  "run_ops ops d = fold apply_op ops d"

definition some_ops :: "ledger_op list" where
  "some_ops =
     [Fbh_add 3 ''Maus'' 3 7 100, Fbh_add 3 ''maus '' 5 7 200, Fbh_add 3 ''Fisch'' 1 7 250,
      Fbh_take 3 ''Maus'' 6, Kl_add 3 ''Minze'' 2 7 300, Kl_dry 3 400, Kl_add 3 ''Minze'' 4 7 500,
      Kl_take 3 ''Minze'' 3, Pantry_add 3 ''Reisekraut'' 2 7 600, Pantry_take 3 ''Reisekraut'' 2,
      Pantry_add 3 ''Wundsalbe'' 1 7 700, Fbh_take 3 ''Fisch'' 9]"

definition shortfall :: "(string \<rightharpoonup> string) \<Rightarrow> nat \<Rightarrow> int \<Rightarrow> db \<Rightarrow> string \<times> int \<Rightarrow> missing_entry option" where
  \<comment> \<open>the failure entry of one ingredient, if it has one: not allowed, or short by what is
      required less what is available\<close>
  "shortfall allowed storage_id menge d item =
     (if \<not> is_allowed (fst item) allowed then Some (Nicht_erlaubt (fst item))
      else if kl_total_available storage_id (norm_key (fst item)) d < snd item * menge
           then Some (Fehlt (fst item)
                        (snd item * menge - kl_total_available storage_id (norm_key (fst item)) d)
                        (snd item * menge)
                        (kl_total_available storage_id (norm_key (fst item)) d))
           else None)"

definition feasible :: "(string \<rightharpoonup> string) \<Rightarrow> nat \<Rightarrow> int \<Rightarrow> db \<Rightarrow> string \<times> int \<Rightarrow> bool" where
  \<comment> \<open>an ingredient that is allowed and of which enough is available\<close>
  "feasible allowed storage_id menge d item =
     (is_allowed (fst item) allowed
      \<and> snd item * menge \<le> kl_total_available storage_id (norm_key (fst item)) d)"

definition herb_config :: config where
  "herb_config =
     \<lparr>allowed_fbh_prey = [''Maus''],
      allowed_kl_herbs = [''Basil'', ''Thyme '', ''Minze''],
      kl_rezepte = [(''Reisekraut'', [(''Basil'', 2), (''Thyme'', 1)]),
                    (''Doppelminze'', [(''Minze'', 1), (''minze'', 1)]),
                    (''Unsinn'', [(''Minze'', - 1)])]\<rparr>"

definition basil_5_thyme_10 :: db where
  \<comment> \<open>storage 3 with 5 Basil in two lots and 10 Thyme\<close>
  "basil_5_thyme_10 =
     kl_add_herb 3 ''Thyme'' 10 7 300
       (kl_add_herb 3 ''Basil'' 2 7 200 (kl_add_herb 3 ''Basil'' 3 7 100 empty_db))"

definition basil_6_thyme_10 :: db where
  "basil_6_thyme_10 = kl_add_herb 3 ''basil'' 1 7 400 basil_5_thyme_10"

definition minze_1 :: db where
  "minze_1 = kl_add_herb 3 ''Minze'' 1 7 100 empty_db"

section \<open>Theorems\<close>

lemma map_of_SAISON_TIMES_cases:
  "map_of SAISON_TIMES s =
     (if s = Blattfrische then Some (4, 7)
      else if s = Blattfall then Some (4, 7)
      else if s = Blattleere then Some (7, 10)
      else if s = Blattgruene then Some (2, 5)
      else None)"
  by (simp add: SAISON_TIMES_def)

lemma saison_names_distinct:
  "Blattgruene \<noteq> Blattfrische" "Blattgruene \<noteq> Blattfall" "Blattgruene \<noteq> Blattleere"
  by (simp_all add: Blattgruene_def Blattfrische_def Blattfall_def Blattleere_def)

text \<open>
  C3. The spoilage status is a function of the age in whole days, the season and the
  seasonal-mode flag alone. With seasonal mode off the thresholds are (7, 14) whatever
  the season; with it on they are the entry of the season table, (2, 5) for the summer
  season, and (7, 14) for a season the table does not hold; in each case the status is
  the classification under these thresholds. So without seasonal mode age 6 is fresh,
  age 7 smelly and age 14 ruined, and in the summer season age 2 is smelly and age 5
  ruined.
\<close>

theorem C3_spoilage_classification:
  "(\<not> en \<longrightarrow> fbh_status_for_age_days age s en = classify 7 14 age)
   \<and> (en \<longrightarrow> map_of SAISON_TIMES s = Some (sm, ru) \<longrightarrow>
        fbh_status_for_age_days age s en = classify sm ru age)
   \<and> (en \<longrightarrow> map_of SAISON_TIMES s = None \<longrightarrow>
        fbh_status_for_age_days age s en = classify 7 14 age)
   \<and> map_of SAISON_TIMES Blattgruene = Some (2, 5)
   \<and> fbh_status_for_age_days 6 s False = Frisch_status
   \<and> fbh_status_for_age_days 7 s False = Mueffelt
   \<and> fbh_status_for_age_days 14 s False = Verdorben
   \<and> fbh_status_for_age_days 2 Blattgruene True = Mueffelt
   \<and> fbh_status_for_age_days 5 Blattgruene True = Verdorben"
  by (simp add: fbh_status_for_age_days_def classify_def DEFAULT_FBH_SMELL_DAYS_def
      DEFAULT_FBH_RUIN_DAYS_def map_of_SAISON_TIMES_cases saison_names_distinct)

theorem C3_spoilage_classification_witness:
  "fbh_status_for_age_days 9 Blattleere False = classify 7 14 9
   \<and> map_of SAISON_TIMES Blattleere = Some (7, 10)
   \<and> fbh_status_for_age_days 9 Blattleere True = classify 7 10 9
   \<and> map_of SAISON_TIMES ''Sommer'' = None
   \<and> fbh_status_for_age_days 9 ''Sommer'' True = classify 7 14 9
   \<and> classify 7 14 9 = Mueffelt \<and> classify 7 10 9 = Mueffelt"
  using C3_spoilage_classification [of False 9 Blattleere 7 10]
        C3_spoilage_classification [of True 9 Blattleere 7 10]
        C3_spoilage_classification [of True 9 "''Sommer''" 7 10]
  by (simp add: map_of_SAISON_TIMES_cases classify_def Blattgruene_def Blattfrische_def
      Blattfall_def Blattleere_def)

subsection \<open>The take loop on a table\<close>

lemma drain_nonpos: "t \<le> 0 \<Longrightarrow> drain idf upd bs t r T = (t, r, T)"
  by (cases bs) auto

lemma drain_append:
  "drain idf upd (bs @ cs) t r T =
     (case drain idf upd bs t r T of (t', r', T') \<Rightarrow> drain idf upd cs t' r' T')"
  by (induction bs arbitrary: t r T) (auto simp: drain_nonpos Let_def)

lemma map_filter_filter:
  "List.map_filter f (filter P xs) = List.map_filter (\<lambda>x. if P x then f x else None) xs"
  by (induction xs) (auto split: option.split)

lemma map_filter_map:
  "List.map_filter f (map g xs) = List.map_filter (\<lambda>x. f (g x)) xs"
  by (induction xs) (auto split: option.split)

lemma map_filter_cong_set:
  "(\<And>x. x \<in> set xs \<Longrightarrow> f x = g x) \<Longrightarrow> List.map_filter f xs = List.map_filter g xs"
  by (induction xs) (auto split: option.split)

lemma map_filter_Some_id:
  "(\<And>x. x \<in> set xs \<Longrightarrow> f x = Some x) \<Longrightarrow> List.map_filter f xs = xs"
  by (induction xs) (auto split: option.split)

lemma sum_list_nonneg_pos: "\<forall>x\<in>set xs. (0::int) < f x \<Longrightarrow> 0 \<le> sum_list (map f xs)"
  by (induction xs) auto

lemma fifo_table_nonpos:
  assumes "t \<le> 0" "\<forall>x\<in>set rs. 0 < qf x" "set rs \<subseteq> set T" "distinct (map idf T)"
    and upd_same: "\<And>x. upd (qf x) x = x"
  shows "fifo_table idf qf upd rs t T = T"
proof -
  have "\<And>x. x \<in> set T \<Longrightarrow>
          (if idf x \<in> idf ` set rs
            then (let c = fifo_share idf qf rs t x
                  in if qf x - c \<le> 0 then None else Some (upd (qf x - c) x))
            else Some x) = Some x"
  proof -
    fix x assume xT: "x \<in> set T"
    show "(if idf x \<in> idf ` set rs
            then (let c = fifo_share idf qf rs t x
                  in if qf x - c \<le> 0 then None else Some (upd (qf x - c) x))
            else Some x) = Some x"
    proof (cases "idf x \<in> idf ` set rs")
      case False then show ?thesis by simp
    next
      case True
      then obtain y where y: "y \<in> set rs" "idf y = idf x" by auto
      with assms(3) have "y \<in> set T" by auto
      with xT y(2) assms(4) have "y = x" by (metis distinct_map inj_onD)
      with y assms(2) have pos: "0 < qf x" by auto
      have "0 \<le> sum_list (map qf (takeWhile (\<lambda>y. idf y \<noteq> idf x) rs))"
        using assms(2) by (intro sum_list_nonneg_pos) (auto dest: set_takeWhileD)
      with assms(1) pos have "fifo_share idf qf rs t x = 0"
        by (simp add: fifo_share_def)
      with pos True show ?thesis by (simp add: upd_same)
    qed
  qed
  then show ?thesis unfolding fifo_table_def by (rule map_filter_Some_id)
qed

lemma drain_fifo:
  assumes upd_id: "\<And>n x. idf (upd n x) = idf x"
    and upd_q: "\<And>n x. qf (upd n x) = n"
    and upd_same: "\<And>x. upd (qf x) x = x"
  shows "distinct (map idf T) \<Longrightarrow> set rs \<subseteq> set T \<Longrightarrow> distinct (map idf rs) \<Longrightarrow>
         \<forall>x\<in>set rs. 0 < qf x \<Longrightarrow>
         drain idf upd (map (\<lambda>x. (idf x, qf x)) rs) t r T =
           (let m = (if t \<le> 0 then 0 else min t (sum_list (map qf rs)))
            in (t - m, r + m, fifo_table idf qf upd rs t T))"
proof (induction rs arbitrary: t r T)
  case Nil
  have "fifo_table idf qf upd [] t T = T"
    unfolding fifo_table_def by (rule map_filter_Some_id) simp
  then show ?case by simp
next
  case (Cons a rs)
  show ?case
  proof (cases "t \<le> 0")
    case True
    have "fifo_table idf qf upd (a # rs) t T = T"
      using True Cons.prems(4) Cons.prems(2) Cons.prems(1) upd_same by (rule fifo_table_nonpos)
    with True show ?thesis by simp
  next
    case False
    define take where "take = min (qf a) t"
    define T' where "T' = (if qf a - take \<le> 0 then filter (\<lambda>x. idf x \<noteq> idf a) T
                          else map (\<lambda>x. if idf x = idf a then upd (qf a - take) x else x) T)"
    have aT: "a \<in> set T" and qa: "0 < qf a" and a_notin: "idf a \<notin> idf ` set rs"
      using Cons.prems by auto
    have take_pos: "0 < take" "take \<le> qf a" "take \<le> t"
      using False qa by (auto simp: take_def)
    have dT': "distinct (map idf T')"
    proof -
      have "map idf (map (\<lambda>x. if idf x = idf a then upd (qf a - take) x else x) T) = map idf T"
        by (simp add: upd_id)
      then show ?thesis using Cons.prems(1)
        by (simp add: T'_def distinct_map_filter del: map_map)
    qed
    have rsT': "set rs \<subseteq> set T'"
    proof
      fix x assume x: "x \<in> set rs"
      with a_notin have ne: "idf x \<noteq> idf a" by (metis imageI)
      from x Cons.prems(2) have "x \<in> set T" by auto
      with ne show "x \<in> set T'" by (auto simp: T'_def intro!: image_eqI [where x = x])
    qed
    have IH: "drain idf upd (map (\<lambda>x. (idf x, qf x)) rs) (t - take) (r + take) T' =
           (let m = (if t - take \<le> 0 then 0 else min (t - take) (sum_list (map qf rs)))
            in (t - take - m, r + take + m, fifo_table idf qf upd rs (t - take) T'))"
      using Cons.IH [OF dT' rsT'] Cons.prems by simp
    have nn: "0 \<le> sum_list (map qf rs)"
      using Cons.prems(4) by (intro sum_list_nonneg_pos) auto
    have amount: "(if t - take \<le> 0 then 0 else min (t - take) (sum_list (map qf rs))) + take
                  = min t (qf a + sum_list (map qf rs))"
      using take_pos nn by (auto simp: take_def min_def)
    have table: "fifo_table idf qf upd rs (t - take) T' = fifo_table idf qf upd (a # rs) t T"
    proof -
      let ?F = "\<lambda>x. if idf x \<in> idf ` set rs
            then (let c = fifo_share idf qf rs (t - take) x
                  in if qf x - c \<le> 0 then None else Some (upd (qf x - c) x))
            else Some x"
      let ?G = "\<lambda>x. if idf x \<in> idf ` set (a # rs)
            then (let c = fifo_share idf qf (a # rs) t x
                  in if qf x - c \<le> 0 then None else Some (upd (qf x - c) x))
            else Some x"
      have share_a: "fifo_share idf qf (a # rs) t a = take"
        using False qa by (simp add: fifo_share_def take_def)
      have share_other: "fifo_share idf qf (a # rs) t x = fifo_share idf qf rs (t - take) x"
        if "idf x \<noteq> idf a" "0 \<le> sum_list (map qf (takeWhile (\<lambda>y. idf y \<noteq> idf x) rs))" for x
        using that False qa by (auto simp: fifo_share_def take_def min_def max_def)
      have older_nn: "0 \<le> sum_list (map qf (takeWhile (\<lambda>y. idf y \<noteq> idf x) rs))" for x
        using Cons.prems(4) by (intro sum_list_nonneg_pos) (auto dest: set_takeWhileD)
      have only_a: "x = a" if "x \<in> set T" "idf x = idf a" for x
        using that aT Cons.prems(1) by (metis distinct_map inj_onD)
      show ?thesis
      proof (cases "qf a - take \<le> 0")
        case True
        then have "fifo_table idf qf upd rs (t - take) T' =
               List.map_filter (\<lambda>x. if idf x \<noteq> idf a then ?F x else None) T"
          by (simp add: fifo_table_def T'_def map_filter_filter)
        also have "\<dots> = List.map_filter ?G T"
        proof (rule map_filter_cong_set)
          fix x assume "x \<in> set T"
          show "(if idf x \<noteq> idf a then ?F x else None) = ?G x"
          proof (cases "idf x = idf a")
            case True
            with \<open>x \<in> set T\<close> have "x = a" by (rule only_a)
            with True \<open>qf a - take \<le> 0\<close> share_a show ?thesis by simp
          next
            case False
            with share_other [OF False older_nn] show ?thesis by simp
          qed
        qed
        finally show ?thesis by (simp add: fifo_table_def)
      next
        case False
        then have "fifo_table idf qf upd rs (t - take) T' =
               List.map_filter (\<lambda>x. ?F (if idf x = idf a then upd (qf a - take) x else x)) T"
          by (simp add: fifo_table_def T'_def map_filter_map)
        also have "\<dots> = List.map_filter ?G T"
        proof (rule map_filter_cong_set)
          fix x assume "x \<in> set T"
          show "?F (if idf x = idf a then upd (qf a - take) x else x) = ?G x"
          proof (cases "idf x = idf a")
            case True
            with \<open>x \<in> set T\<close> have "x = a" by (rule only_a)
            with True False share_a a_notin show ?thesis by (simp add: upd_id)
          next
            case False
            with share_other [OF False older_nn] show ?thesis by simp
          qed
        qed
        finally show ?thesis by (simp add: fifo_table_def)
      qed
    qed
    have "drain idf upd (map (\<lambda>x. (idf x, qf x)) (a # rs)) t r T =
          drain idf upd (map (\<lambda>x. (idf x, qf x)) rs) (t - take) (r + take) T'"
      unfolding take_def T'_def using \<open>\<not> t \<le> 0\<close> by (simp add: Let_def)
    also note IH
    finally show ?thesis
      using \<open>\<not> t \<le> 0\<close> amount table by (simp add: Let_def algebra_simps)
  qed
qed

lemma filter_upd_other:
  assumes "\<And>n x. idf (upd n x) = idf x"
  shows "filter (\<lambda>x. idf x \<noteq> i) (map (\<lambda>x. if idf x = i then upd n x else x) T)
         = filter (\<lambda>x. idf x \<noteq> i) T"
  by (induction T) (auto simp: assms)

lemma drain_frame:
  assumes upd_id: "\<And>n x. idf (upd n x) = idf x"
    and upd_P: "\<And>n x. P (upd n x) = P x"
  shows "\<forall>x\<in>set T. idf x \<in> fst ` set bs \<longrightarrow> P x \<Longrightarrow>
         filter (\<lambda>x. \<not> P x) (snd (snd (drain idf upd bs t r T))) = filter (\<lambda>x. \<not> P x) T"
proof (induction bs arbitrary: t r T)
  case Nil
  then show ?case by simp
next
  case (Cons b bs)
  obtain i q where b: "b = (i, q)" by (cases b)
  show ?case
  proof (cases "t \<le> 0")
    case True
    then show ?thesis by (simp add: b)
  next
    case False
    define new where "new = q - min q t"
    define T1 where "T1 = (if new \<le> 0 then filter (\<lambda>x. idf x \<noteq> i) T
                          else map (\<lambda>x. if idf x = i then upd new x else x) T)"
    have Pi: "\<And>x. x \<in> set T \<Longrightarrow> idf x = i \<Longrightarrow> P x"
      using Cons.prems by (auto simp: b)
    have step: "filter (\<lambda>x. \<not> P x) T1 = filter (\<lambda>x. \<not> P x) T"
    proof (cases "new \<le> 0")
      case True
      then have "filter (\<lambda>x. \<not> P x) T1 = filter (\<lambda>x. \<not> P x \<and> idf x \<noteq> i) T"
        by (simp add: T1_def conj_commute)
      also have "\<dots> = filter (\<lambda>x. \<not> P x) T"
        by (rule filter_cong) (use Pi in auto)
      finally show ?thesis .
    next
      case False
      have "filter (\<lambda>x. \<not> P x) (map (\<lambda>x. if idf x = i then upd new x else x) T)
            = filter (\<lambda>x. \<not> P x) T"
        using Pi by (induction T) (auto simp: upd_P)
      with False show ?thesis by (simp add: T1_def)
    qed
    have inv: "\<forall>x\<in>set T1. idf x \<in> fst ` set bs \<longrightarrow> P x"
      using Cons.prems by (auto simp: T1_def b upd_P upd_id split: if_splits)
    have "drain idf upd (b # bs) t r T = drain idf upd bs (t - min q t) (r + min q t) T1"
      unfolding T1_def new_def using False by (simp add: b Let_def)
    with Cons.IH [OF inv] step show ?thesis by simp
  qed
qed

lemma drain_invariant:
  assumes upd_Q: "\<And>n x. 0 < n \<Longrightarrow> Q x \<Longrightarrow> Q (upd n x)"
  shows "list_all Q T \<Longrightarrow> list_all Q (snd (snd (drain idf upd bs t r T)))"
proof (induction bs arbitrary: t r T)
  case Nil
  then show ?case by simp
next
  case (Cons b bs)
  obtain i q where b: "b = (i, q)" by (cases b)
  show ?case
  proof (cases "t \<le> 0")
    case True
    with Cons.prems show ?thesis by (simp add: b)
  next
    case False
    define new where "new = q - min q t"
    define T1 where "T1 = (if new \<le> 0 then filter (\<lambda>x. idf x \<noteq> i) T
                          else map (\<lambda>x. if idf x = i then upd new x else x) T)"
    have eq: "drain idf upd (b # bs) t r T = drain idf upd bs (t - min q t) (r + min q t) T1"
      unfolding T1_def new_def using False by (simp add: b Let_def)
    have "list_all Q T1"
      using Cons.prems by (auto simp: T1_def list_all_iff upd_Q)
    from Cons.IH [OF this] eq show ?thesis by simp
  qed
qed

lemma drain_distinct:
  assumes upd_id: "\<And>n x. idf (upd n x) = idf x"
  shows "distinct (map idf T) \<Longrightarrow> distinct (map idf (snd (snd (drain idf upd bs t r T))))"
proof (induction bs arbitrary: t r T)
  case Nil
  then show ?case by simp
next
  case (Cons b bs)
  obtain i q where b: "b = (i, q)" by (cases b)
  show ?case
  proof (cases "t \<le> 0")
    case True
    with Cons.prems show ?thesis by (simp add: b)
  next
    case False
    define new where "new = q - min q t"
    define T1 where "T1 = (if new \<le> 0 then filter (\<lambda>x. idf x \<noteq> i) T
                          else map (\<lambda>x. if idf x = i then upd new x else x) T)"
    have eq: "drain idf upd (b # bs) t r T = drain idf upd bs (t - min q t) (r + min q t) T1"
      unfolding T1_def new_def using False by (simp add: b Let_def)
    have "map idf (map (\<lambda>x. if idf x = i then upd new x else x) T) = map idf T"
      by (simp add: upd_id)
    then have "distinct (map idf T1)"
      using Cons.prems by (simp add: T1_def distinct_map_filter del: map_map)
    from Cons.IH [OF this] eq show ?thesis by simp
  qed
qed

subsection \<open>Taking from the batches\<close>

lemma set_b_qty_simps [simp]:
  "b_id (set_b_qty n x) = b_id x" "b_qty (set_b_qty n x) = n" "set_b_qty (b_qty x) x = x"
  "b_storage_id (set_b_qty n x) = b_storage_id x" "b_item_key (set_b_qty n x) = b_item_key x"
  by (simp_all add: set_b_qty_def)

lemma fbh_take_loop_drain:
  "fbh_take_loop bs t r d =
     (case drain b_id set_b_qty bs t r (fbh_batches d) of
        (t', r', T') \<Rightarrow> (r', d\<lparr>fbh_batches := T'\<rparr>))"
proof (induction bs arbitrary: t r d)
  case Nil
  then show ?case by simp
next
  case (Cons b bs)
  obtain i q where b: "b = (i, q)" by (cases b)
  show ?case
    by (simp add: b Cons.IH Let_def set_b_qty_def [abs_def])
qed

lemma fbh_take_drain:
  "fbh_take storage_id name qty d =
     (case drain b_id set_b_qty
             (map (\<lambda>r. (b_id r, b_qty r)) (fbh_order storage_id (norm_key name) d))
             qty 0 (fbh_batches d) of
        (t', r', T') \<Rightarrow> (r', d\<lparr>fbh_batches := T'\<rparr>))"
  by (simp add: fbh_take_def fbh_order_def fbh_rows_def fbh_take_loop_drain)

lemma sum_list_insort_key:
  "sum_list (map f (insort_key g x xs)) = (f x :: int) + sum_list (map f xs)"
  by (induction xs) auto

lemma sum_list_sort_key: "sum_list (map f (sort_key g xs)) = (sum_list (map f xs) :: int)"
  by (induction xs) (simp_all add: sum_list_insort_key)

lemma fbh_order_facts:
  assumes "distinct (map b_id (fbh_batches d))"
  shows "set (fbh_order sid k d) \<subseteq> set (fbh_batches d)"
    and "distinct (map b_id (fbh_order sid k d))"
    and "set (fbh_order sid k d) = set (fbh_rows sid k d)"
    and "sum_list (map b_qty (fbh_order sid k d)) = fbh_key_total sid k d"
proof -
  show "set (fbh_order sid k d) \<subseteq> set (fbh_batches d)"
    by (auto simp: fbh_order_def fbh_rows_def)
  show "set (fbh_order sid k d) = set (fbh_rows sid k d)"
    by (simp add: fbh_order_def)
  show "sum_list (map b_qty (fbh_order sid k d)) = fbh_key_total sid k d"
    by (simp add: fbh_order_def fbh_key_total_def sum_list_sort_key)
  have "distinct (map b_id (fbh_rows sid k d))"
    using assms by (simp add: fbh_rows_def distinct_map_filter)
  then show "distinct (map b_id (fbh_order sid k d))"
    by (simp add: fbh_order_def distinct_map)
qed

lemma fbh_take_fifo:
  assumes "keys_ok d" "quantities_positive d" "0 < qty"
  shows "fbh_take sid name qty d =
           (min qty (fbh_key_total sid (norm_key name) d),
            d\<lparr>fbh_batches := fifo_table b_id b_qty set_b_qty (fbh_order sid (norm_key name) d)
                                qty (fbh_batches d)\<rparr>)"
proof -
  let ?rs = "fbh_order sid (norm_key name) d"
  have dist: "distinct (map b_id (fbh_batches d))"
    using assms(1) by (simp add: keys_ok_def)
  have pos: "\<forall>x\<in>set ?rs. 0 < b_qty x"
    using assms(2) fbh_order_facts(1) [OF dist, of sid "norm_key name"]
    by (auto simp: quantities_positive_def list_all_iff)
  have "drain b_id set_b_qty (map (\<lambda>x. (b_id x, b_qty x)) ?rs) qty 0 (fbh_batches d) =
          (let m = (if qty \<le> 0 then 0 else min qty (sum_list (map b_qty ?rs)))
           in (qty - m, 0 + m, fifo_table b_id b_qty set_b_qty ?rs qty (fbh_batches d)))"
    by (rule drain_fifo) (simp_all add: dist fbh_order_facts(1,2) [OF dist] pos)
  then show ?thesis
    using assms(3) by (simp add: fbh_take_drain fbh_order_facts(4) [OF dist] Let_def)
qed


subsection \<open>Taking from the lots\<close>

lemma set_l_qty_simps [simp]:
  "l_id (set_l_qty n x) = l_id x" "l_qty (set_l_qty n x) = n" "set_l_qty (l_qty x) x = x"
  "l_storage_id (set_l_qty n x) = l_storage_id x" "l_herb_key (set_l_qty n x) = l_herb_key x"
  "l_state (set_l_qty n x) = l_state x"
  by (simp_all add: set_l_qty_def)

lemma kl_take_loop_drain:
  "kl_take_loop bs t r d =
     (case drain l_id set_l_qty bs t r (kl_herb_lots d) of
        (t', r', T') \<Rightarrow> (t', r', d\<lparr>kl_herb_lots := T'\<rparr>))"
proof (induction bs arbitrary: t r d)
  case Nil
  then show ?case by simp
next
  case (Cons b bs)
  obtain i q where b: "b = (i, q)" by (cases b)
  show ?case
    by (simp add: b Cons.IH Let_def set_l_qty_def [abs_def])
qed

lemma kl_take_herb_drain:
  assumes "distinct (map l_id (kl_herb_lots d))"
  shows "kl_take_herb sid name qty d =
     (case drain l_id set_l_qty (map (\<lambda>r. (l_id r, l_qty r)) (kl_order sid (norm_key name) d))
             qty 0 (kl_herb_lots d) of
        (t', r', T') \<Rightarrow> (r', d\<lparr>kl_herb_lots := T'\<rparr>))"
proof (cases "qty \<le> 0")
  case True
  then show ?thesis by (simp add: kl_take_herb_def drain_nonpos)
next
  case False
  let ?k = "norm_key name"
  let ?F = "map (\<lambda>r. (l_id r, l_qty r)) (sort_key l_added_at (kl_rows sid ?k Frisch d))"
  let ?D = "map (\<lambda>r. (l_id r, l_qty r)) (sort_key l_added_at (kl_rows sid ?k Getrocknet d))"
  obtain t1 r1 T1 where d1: "drain l_id set_l_qty ?F qty 0 (kl_herb_lots d) = (t1, r1, T1)"
    by (cases "drain l_id set_l_qty ?F qty 0 (kl_herb_lots d)")
  let ?P = "\<lambda>r. l_storage_id r = sid \<and> l_herb_key r = ?k \<and> l_state r = Frisch"
  have "\<forall>x\<in>set (kl_herb_lots d). l_id x \<in> fst ` set ?F \<longrightarrow> ?P x"
  proof (intro ballI impI)
    fix x assume x: "x \<in> set (kl_herb_lots d)" "l_id x \<in> fst ` set ?F"
    then obtain y where y: "y \<in> set (kl_rows sid ?k Frisch d)" "l_id y = l_id x"
      by (auto simp: image_iff)
    then have "y \<in> set (kl_herb_lots d)" "?P y" by (auto simp: kl_rows_def)
    with x(1) y(2) assms have "y = x" by (metis distinct_map inj_onD)
    with \<open>?P y\<close> show "?P x" by simp
  qed
  then have "filter (\<lambda>x. \<not> ?P x) (snd (snd (drain l_id set_l_qty ?F qty 0 (kl_herb_lots d))))
             = filter (\<lambda>x. \<not> ?P x) (kl_herb_lots d)"
    by (intro drain_frame) simp_all
  then have fr: "filter (\<lambda>x. \<not> ?P x) T1 = filter (\<lambda>x. \<not> ?P x) (kl_herb_lots d)"
    by (simp add: d1)
  have "kl_rows sid ?k Getrocknet (d\<lparr>kl_herb_lots := T1\<rparr>)
        = filter (\<lambda>r. l_storage_id r = sid \<and> l_herb_key r = ?k \<and> l_state r = Getrocknet)
            (filter (\<lambda>x. \<not> ?P x) T1)"
    by (auto simp: kl_rows_def intro: filter_cong)
  also have "\<dots> = kl_rows sid ?k Getrocknet d"
    unfolding fr by (auto simp: kl_rows_def intro: filter_cong)
  finally have same: "kl_rows sid ?k Getrocknet (d\<lparr>kl_herb_lots := T1\<rparr>) = kl_rows sid ?k Getrocknet d" .
  have same': "filter (\<lambda>r. l_storage_id r = sid \<and> l_herb_key r = ?k \<and> l_state r = Getrocknet) T1
               = kl_rows sid ?k Getrocknet d"
    using same by (simp add: kl_rows_def)
  show ?thesis
  proof (cases "t1 \<le> 0")
    case True
    with False d1 show ?thesis
      by (simp add: kl_take_herb_def kl_order_def kl_rows_def [symmetric] kl_take_loop_drain
          drain_append drain_nonpos)
  next
    case t1: False
    with False d1 show ?thesis
      by (simp add: kl_take_herb_def kl_order_def kl_rows_def [symmetric] kl_take_loop_drain
          drain_append same' split: prod.splits)
  qed
qed

subsection \<open>Shares\<close>

lemma takeWhile_other_id:
  assumes "distinct (map idf rs)" "j < length rs"
  shows "takeWhile (\<lambda>y. idf y \<noteq> idf (rs ! j)) rs = take j rs"
proof (rule takeWhile_eq_take_P_nth)
  fix i assume "i < j" "i < length rs"
  with assms show "idf (rs ! i) \<noteq> idf (rs ! j)"
    by (metis distinct_conv_nth length_map nat_neq_iff nth_map)
qed simp

lemma fifo_share_nth:
  assumes "distinct (map idf rs)" "j < length rs"
  shows "fifo_share idf qf rs t (rs ! j)
         = min (qf (rs ! j)) (max 0 (t - sum_list (map qf (take j rs))))"
  by (simp add: fifo_share_def takeWhile_other_id [OF assms])

lemma sum_take_mono:
  assumes "\<forall>x\<in>set rs. (0::int) < qf x" "i \<le> j"
  shows "sum_list (map qf (take i rs)) \<le> sum_list (map qf (take j rs))"
proof -
  have "take j rs = take i rs @ take (j - i) (drop i rs)"
    using assms(2) by (metis le_add_diff_inverse take_add)
  moreover have "0 \<le> sum_list (map qf (take (j - i) (drop i rs)))"
    using assms(1) by (intro sum_list_nonneg_pos) (auto dest: in_set_takeD in_set_dropD)
  ultimately show ?thesis by simp
qed

lemma sum_take_Suc:
  "i < length rs \<Longrightarrow> sum_list (map qf (take (Suc i) rs)) = sum_list (map qf (take i rs)) + (qf (rs ! i) :: int)"
  by (simp add: take_Suc_conv_app_nth)

lemma fifo_share_older_first:
  assumes "distinct (map idf rs)" "\<forall>x\<in>set rs. 0 < qf x" "i < j" "j < length rs"
    and "0 < fifo_share idf qf rs t (rs ! j)"
  shows "fifo_share idf qf rs t (rs ! i) = qf (rs ! i)"
proof -
  have i: "i < length rs" using assms(3,4) by simp
  have "sum_list (map qf (take j rs)) < t"
    using assms(5) by (auto simp: fifo_share_nth [OF assms(1,4)] max_def split: if_splits)
  moreover have "sum_list (map qf (take (Suc i) rs)) \<le> sum_list (map qf (take j rs))"
    using assms(2,3) by (intro sum_take_mono) auto
  ultimately have "sum_list (map qf (take i rs)) + qf (rs ! i) < t"
    by (simp add: sum_take_Suc [OF i])
  then show ?thesis by (auto simp: fifo_share_nth [OF assms(1) i] min_def max_def)
qed

lemma fifo_share_all:
  assumes "distinct (map idf rs)" "\<forall>x\<in>set rs. 0 < qf x" "x \<in> set rs"
    and "sum_list (map qf rs) \<le> t"
  shows "fifo_share idf qf rs t x = qf x"
proof -
  from assms(3) obtain j where j: "j < length rs" "x = rs ! j" by (auto simp: in_set_conv_nth)
  have "sum_list (map qf (take (Suc j) rs)) \<le> sum_list (map qf (take (length rs) rs))"
    using assms(2) j(1) by (intro sum_take_mono) auto
  then have "sum_list (map qf (take j rs)) + qf (rs ! j) \<le> t"
    using assms(4) by (simp add: sum_take_Suc [OF j(1)])
  then show ?thesis by (auto simp: j(2) fifo_share_nth [OF assms(1) j(1)] min_def max_def)
qed

lemma set_map_filter: "set (List.map_filter f xs) = {y. \<exists>x\<in>set xs. f x = Some y}"
  by (induction xs) (auto split: option.splits)

lemma fifo_table_exhausted:
  assumes "distinct (map idf T)" "set rs \<subseteq> set T" "distinct (map idf rs)"
    and "\<forall>x\<in>set rs. 0 < qf x" "sum_list (map qf rs) \<le> t"
    and "y \<in> set (fifo_table idf qf upd rs t T)"
  shows "y \<in> set T \<and> idf y \<notin> idf ` set rs"
proof -
  from assms(6) obtain x where x: "x \<in> set T"
    and fx: "(if idf x \<in> idf ` set rs
            then (let c = fifo_share idf qf rs t x
                  in if qf x - c \<le> 0 then None else Some (upd (qf x - c) x))
            else Some x) = Some y"
    by (auto simp: fifo_table_def set_map_filter)
  show ?thesis
  proof (cases "idf x \<in> idf ` set rs")
    case False
    with fx x show ?thesis by simp
  next
    case True
    then obtain z where z: "z \<in> set rs" "idf z = idf x" by auto
    with assms(2) have "z \<in> set T" by auto
    with x z(2) assms(1) have "z = x" by (metis distinct_map inj_onD)
    with z have "x \<in> set rs" by simp
    from fifo_share_all [OF assms(3,4) this assms(5)] True fx show ?thesis by simp
  qed
qed

subsection \<open>Adding keeps the constraints\<close>

lemma fbh_add_keys_ok: "keys_ok d \<Longrightarrow> keys_ok (fbh_add sid name q u now d)"
  by (fastforce simp: keys_ok_def fbh_add_def Let_def list_all_iff)

lemma fbh_add_positive:
  "0 < q \<Longrightarrow> quantities_positive d \<Longrightarrow> quantities_positive (fbh_add sid name q u now d)"
  by (simp add: quantities_positive_def fbh_add_def Let_def)

lemma fbh_rows_fbh_add:
  "fbh_rows sid k (fbh_add sid' name q u now d) =
     fbh_rows sid k d @
       (if sid' = sid \<and> norm_key name = k
        then [\<lparr>b_id = fbh_seq d + 1, b_storage_id = sid', b_item_key = norm_key name,
               b_item_display = strip name, b_qty = q, b_added_at = now, b_added_by = u\<rparr>]
        else [])"
  by (simp add: fbh_rows_def fbh_add_def Let_def)

lemma map_filter_append:
  "List.map_filter f (xs @ ys) = List.map_filter f xs @ List.map_filter f ys"
  by (induction xs) (auto split: option.splits)

text \<open>
  C2. For a database that meets the schema's key constraints and holds positive
  quantities, and a request \<open>qty > 0\<close>: the batches of the storage and key are asked
  oldest first; the take returns the smaller of the request and the key's total; the
  table afterwards is the one in which every batch has given its first-in-first-out
  share, a batch that gave all being deleted and one that gave a part holding the rest
  in place; a batch gives something only if every older one has given all it held; and
  when the request reaches the total no batch of the key is left. In particular, after
  a batch of 3 and then a later batch of 5 are added to a key without batches, taking 6
  returns 6 and leaves the second batch alone, with quantity 2.
\<close>

theorem C2_batch_take_fifo:
  assumes "keys_ok d" "quantities_positive d" "0 < qty"
  shows "sorted (map b_added_at (fbh_order sid (norm_key name) d))
     \<and> fst (fbh_take sid name qty d) = min qty (fbh_key_total sid (norm_key name) d)
     \<and> snd (fbh_take sid name qty d) =
         d\<lparr>fbh_batches := fifo_table b_id b_qty set_b_qty (fbh_order sid (norm_key name) d)
                             qty (fbh_batches d)\<rparr>
     \<and> (\<forall>i j. i < j \<and> j < length (fbh_order sid (norm_key name) d)
              \<and> 0 < fifo_share b_id b_qty (fbh_order sid (norm_key name) d) qty
                      (fbh_order sid (norm_key name) d ! j)
            \<longrightarrow> fifo_share b_id b_qty (fbh_order sid (norm_key name) d) qty
                      (fbh_order sid (norm_key name) d ! i)
                = b_qty (fbh_order sid (norm_key name) d ! i))
     \<and> (fbh_key_total sid (norm_key name) d \<le> qty
          \<longrightarrow> fbh_rows sid (norm_key name) (snd (fbh_take sid name qty d)) = [])
     \<and> (\<forall>t1 t2 u1 u2. t1 < t2 \<and> fbh_rows sid (norm_key name) d = [] \<longrightarrow>
          fbh_take sid name 6 (fbh_add sid name 5 u2 t2 (fbh_add sid name 3 u1 t1 d)) =
            (6, d\<lparr>fbh_batches := fbh_batches d @
                     [\<lparr>b_id = fbh_seq d + 2, b_storage_id = sid, b_item_key = norm_key name,
                       b_item_display = strip name, b_qty = 2, b_added_at = t2,
                       b_added_by = u2\<rparr>],
                   fbh_seq := fbh_seq d + 2\<rparr>))"
proof -
  let ?k = "norm_key name"
  let ?rs = "fbh_order sid ?k d"
  have dist: "distinct (map b_id (fbh_batches d))"
    using assms(1) by (simp add: keys_ok_def)
  note of = fbh_order_facts [OF dist, of sid ?k]
  have pos: "\<forall>x\<in>set ?rs. 0 < b_qty x"
    using assms(2) of(1) by (auto simp: quantities_positive_def list_all_iff)
  note eq = fbh_take_fifo [OF assms, of sid name]
  have c1: "sorted (map b_added_at ?rs)"
    by (simp add: fbh_order_def)
  have c4: "\<forall>i j. i < j \<and> j < length ?rs \<and> 0 < fifo_share b_id b_qty ?rs qty (?rs ! j)
            \<longrightarrow> fifo_share b_id b_qty ?rs qty (?rs ! i) = b_qty (?rs ! i)"
    using fifo_share_older_first [OF of(2) pos] by blast
  have c5: "fbh_key_total sid ?k d \<le> qty \<longrightarrow> fbh_rows sid ?k (snd (fbh_take sid name qty d)) = []"
  proof
    assume le: "fbh_key_total sid ?k d \<le> qty"
    have "\<not> (b_storage_id y = sid \<and> b_item_key y = ?k)"
      if y: "y \<in> set (fifo_table b_id b_qty set_b_qty ?rs qty (fbh_batches d))" for y
    proof -
      from fifo_table_exhausted [OF dist of(1,2) pos _ y] le of(4)
      have "y \<in> set (fbh_batches d)" "b_id y \<notin> b_id ` set ?rs" by auto
      then show ?thesis by (auto simp: of(3) fbh_rows_def)
    qed
    then show "fbh_rows sid ?k (snd (fbh_take sid name qty d)) = []"
      by (auto simp: eq fbh_rows_def filter_empty_conv)
  qed
  have c6: "fbh_take sid name 6 (fbh_add sid name 5 u2 t2 (fbh_add sid name 3 u1 t1 d)) =
            (6, d\<lparr>fbh_batches := fbh_batches d @
                     [\<lparr>b_id = fbh_seq d + 2, b_storage_id = sid, b_item_key = ?k,
                       b_item_display = strip name, b_qty = 2, b_added_at = t2,
                       b_added_by = u2\<rparr>],
                   fbh_seq := fbh_seq d + 2\<rparr>)"
    if "t1 < t2" and none: "fbh_rows sid ?k d = []" for t1 t2 u1 u2
  proof -
    let ?dA = "fbh_add sid name 3 u1 t1 d"
    let ?dB = "fbh_add sid name 5 u2 t2 ?dA"
    let ?A = "\<lparr>b_id = fbh_seq d + 1, b_storage_id = sid, b_item_key = ?k,
               b_item_display = strip name, b_qty = 3, b_added_at = t1, b_added_by = u1\<rparr>"
    let ?B = "\<lparr>b_id = fbh_seq d + 2, b_storage_id = sid, b_item_key = ?k,
               b_item_display = strip name, b_qty = 5, b_added_at = t2, b_added_by = u2\<rparr>"
    have kB: "keys_ok ?dB" and pB: "quantities_positive ?dB"
      using assms(1,2) by (simp_all add: fbh_add_keys_ok fbh_add_positive)
    have seqA: "fbh_seq ?dA = fbh_seq d + 1" by (simp add: fbh_add_def Let_def)
    have tbl: "fbh_batches ?dB = fbh_batches d @ [?A, ?B]"
      by (simp add: fbh_add_def Let_def)
    have ord: "fbh_order sid ?k ?dB = [?A, ?B]"
      using \<open>t1 < t2\<close> by (simp add: fbh_order_def fbh_rows_fbh_add none seqA)
    have tot: "fbh_key_total sid ?k ?dB = 8"
      by (simp add: fbh_key_total_def fbh_rows_fbh_add none)
    have old: "List.map_filter
       (\<lambda>x. if b_id x \<in> b_id ` set [?A, ?B]
            then (let c = fifo_share b_id b_qty [?A, ?B] 6 x
                  in if b_qty x - c \<le> 0 then None else Some (set_b_qty (b_qty x - c) x))
            else Some x) (fbh_batches d) = fbh_batches d"
      using assms(1) by (intro map_filter_Some_id) (auto simp: keys_ok_def list_all_iff)
    have "fifo_table b_id b_qty set_b_qty [?A, ?B] 6 (fbh_batches ?dB)
          = fbh_batches d @ [?B\<lparr>b_qty := 2\<rparr>]"
      unfolding fifo_table_def tbl map_filter_append old
      by (simp add: fifo_share_def set_b_qty_def)
    with fbh_take_fifo [OF kB pB, of 6 sid name] ord tot show ?thesis
      by (simp add: fbh_add_def Let_def)
  qed
  from c1 c4 c5 c6 eq show ?thesis by simp
qed


theorem C2_batch_take_fifo_witness:
  "keys_ok batches_3_then_5 \<and> quantities_positive batches_3_then_5
   \<and> fst (fbh_take 3 ''MAUS'' 6 batches_3_then_5) = 6
   \<and> fbh_batches (snd (fbh_take 3 ''MAUS'' 6 batches_3_then_5)) =
        [\<lparr>b_id = 2, b_storage_id = 3, b_item_key = ''maus'', b_item_display = ''Maus'',
          b_qty = 2, b_added_at = 200, b_added_by = 7\<rparr>]
   \<and> fbh_key_total 3 ''maus'' (snd (fbh_take 3 ''MAUS'' 6 batches_3_then_5)) = 2
   \<and> keys_ok batches_1_and_3 \<and> quantities_positive batches_1_and_3
   \<and> fbh_key_total 3 ''maus'' batches_1_and_3 = 4
   \<and> fst (fbh_take 3 ''Maus'' 10 batches_1_and_3) = 4
   \<and> fbh_rows 3 ''maus'' (snd (fbh_take 3 ''Maus'' 10 batches_1_and_3)) = []"
proof -
  have k1: "keys_ok batches_3_then_5" and p1: "quantities_positive batches_3_then_5"
    by code_simp+
  have k2: "keys_ok batches_1_and_3" and p2: "quantities_positive batches_1_and_3"
    by code_simp+
  have n1: "norm_key ''MAUS'' = ''maus''" and n2: "norm_key ''Maus'' = ''maus''"
    by code_simp+
  have t1: "fbh_key_total 3 ''maus'' batches_3_then_5 = 8"
    and t2: "fbh_key_total 3 ''maus'' batches_1_and_3 = 4"
    by code_simp+
  have tbl: "fifo_table b_id b_qty set_b_qty (fbh_order 3 ''maus'' batches_3_then_5) 6
               (fbh_batches batches_3_then_5) =
        [\<lparr>b_id = 2, b_storage_id = 3, b_item_key = ''maus'', b_item_display = ''Maus'',
          b_qty = 2, b_added_at = 200, b_added_by = 7\<rparr>]"
    by code_simp
  have q1: "(0::int) < 6" and q2: "(0::int) < 10" by simp_all
  note A = C2_batch_take_fifo [OF k1 p1 q1, of 3 "''MAUS''", unfolded n1]
  note B = C2_batch_take_fifo [OF k2 p2 q2, of 3 "''Maus''", unfolded n2]
  from A have a1: "fst (fbh_take 3 ''MAUS'' 6 batches_3_then_5) = 6"
    by (simp add: t1)
  from A have a2: "fbh_batches (snd (fbh_take 3 ''MAUS'' 6 batches_3_then_5)) =
        [\<lparr>b_id = 2, b_storage_id = 3, b_item_key = ''maus'', b_item_display = ''Maus'',
          b_qty = 2, b_added_at = 200, b_added_by = 7\<rparr>]"
    by (simp add: tbl)
  then have a3: "fbh_key_total 3 ''maus'' (snd (fbh_take 3 ''MAUS'' 6 batches_3_then_5)) = 2"
    by (simp add: fbh_key_total_def fbh_rows_def)
  from B have b1: "fst (fbh_take 3 ''Maus'' 10 batches_1_and_3) = 4"
    by (simp add: t2)
  have "fbh_key_total 3 ''maus'' batches_1_and_3 \<le> 10"
    by (simp add: t2)
  with B have b2: "fbh_rows 3 ''maus'' (snd (fbh_take 3 ''Maus'' 10 batches_1_and_3)) = []"
    by blast
  from k1 p1 k2 p2 t2 a1 a2 a3 b1 b2 show ?thesis by simp
qed

subsection \<open>What a take leaves alone\<close>

lemma fbh_take_snd:
  "snd (fbh_take sid name qty d) =
     d\<lparr>fbh_batches := snd (snd (drain b_id set_b_qty
                                 (map (\<lambda>r. (b_id r, b_qty r)) (fbh_order sid (norm_key name) d))
                                 qty 0 (fbh_batches d)))\<rparr>"
  by (simp add: fbh_take_drain split: prod.splits)

lemma kl_take_herb_snd:
  assumes "distinct (map l_id (kl_herb_lots d))"
  shows "snd (kl_take_herb sid name qty d) =
     d\<lparr>kl_herb_lots := snd (snd (drain l_id set_l_qty
                                  (map (\<lambda>r. (l_id r, l_qty r)) (kl_order sid (norm_key name) d))
                                  qty 0 (kl_herb_lots d)))\<rparr>"
  by (simp add: kl_take_herb_drain [OF assms] split: prod.splits)

lemma fbh_order_ids:
  assumes "distinct (map b_id (fbh_batches d))" "x \<in> set (fbh_batches d)"
    and "b_id x \<in> fst ` set (map (\<lambda>r. (b_id r, b_qty r)) (fbh_order sid k d))"
  shows "b_storage_id x = sid \<and> b_item_key x = k"
proof -
  from assms(3) obtain y where y: "y \<in> set (fbh_rows sid k d)" "b_id y = b_id x"
    by (auto simp: image_iff fbh_order_def)
  then have "y \<in> set (fbh_batches d)" and m: "b_storage_id y = sid \<and> b_item_key y = k"
    by (auto simp: fbh_rows_def)
  with assms(1,2) y(2) have "y = x" by (metis distinct_map inj_onD)
  with m show ?thesis by simp
qed

lemma kl_order_ids:
  assumes "distinct (map l_id (kl_herb_lots d))" "x \<in> set (kl_herb_lots d)"
    and "l_id x \<in> fst ` set (map (\<lambda>r. (l_id r, l_qty r)) (kl_order sid k d))"
  shows "l_storage_id x = sid \<and> l_herb_key x = k"
proof -
  from assms(3) obtain y where y: "y \<in> set (kl_order sid k d)" "l_id y = l_id x"
    by (auto simp: image_iff)
  then have "y \<in> set (kl_herb_lots d)" and m: "l_storage_id y = sid \<and> l_herb_key y = k"
    by (auto simp: kl_order_def kl_rows_def)
  with assms(1,2) y(2) have "y = x" by (metis distinct_map inj_onD)
  with m show ?thesis by simp
qed

lemma fbh_take_frame:
  assumes "distinct (map b_id (fbh_batches d))"
  shows "filter (\<lambda>r. \<not> (b_storage_id r = sid \<and> b_item_key r = norm_key name))
           (fbh_batches (snd (fbh_take sid name qty d)))
         = filter (\<lambda>r. \<not> (b_storage_id r = sid \<and> b_item_key r = norm_key name)) (fbh_batches d)"
  unfolding fbh_take_snd
  using drain_frame [where idf = b_id and upd = set_b_qty
      and P = "\<lambda>r. b_storage_id r = sid \<and> b_item_key r = norm_key name"
      and T = "fbh_batches d"
      and bs = "map (\<lambda>r. (b_id r, b_qty r)) (fbh_order sid (norm_key name) d)"]
    fbh_order_ids [OF assms]
  by simp

lemma kl_take_herb_frame:
  assumes "distinct (map l_id (kl_herb_lots d))"
  shows "filter (\<lambda>r. \<not> (l_storage_id r = sid \<and> l_herb_key r = norm_key name))
           (kl_herb_lots (snd (kl_take_herb sid name qty d)))
         = filter (\<lambda>r. \<not> (l_storage_id r = sid \<and> l_herb_key r = norm_key name)) (kl_herb_lots d)"
  unfolding kl_take_herb_snd [OF assms]
  using drain_frame [where idf = l_id and upd = set_l_qty
      and P = "\<lambda>r. l_storage_id r = sid \<and> l_herb_key r = norm_key name"
      and T = "kl_herb_lots d"
      and bs = "map (\<lambda>r. (l_id r, l_qty r)) (kl_order sid (norm_key name) d)"]
    kl_order_ids [OF assms]
  by simp

text \<open>
  C10. In a database that meets the schema's key constraints, a batch take and a lot
  take leave every row of another storage or another item key as it was: the rows of
  the taken table whose storage or normalised key differs from the arguments are the
  same rows, in the same order, before and after, and the other tables, the key
  sequences and the settings are not touched at all.
\<close>

theorem C10_take_frame:
  assumes "keys_ok d"
  shows "filter (\<lambda>r. \<not> (b_storage_id r = sid \<and> b_item_key r = norm_key name))
           (fbh_batches (snd (fbh_take sid name qty d)))
         = filter (\<lambda>r. \<not> (b_storage_id r = sid \<and> b_item_key r = norm_key name)) (fbh_batches d)
     \<and> snd (fbh_take sid name qty d) = d\<lparr>fbh_batches := fbh_batches (snd (fbh_take sid name qty d))\<rparr>
     \<and> filter (\<lambda>r. \<not> (l_storage_id r = sid \<and> l_herb_key r = norm_key name))
           (kl_herb_lots (snd (kl_take_herb sid name qty d)))
         = filter (\<lambda>r. \<not> (l_storage_id r = sid \<and> l_herb_key r = norm_key name)) (kl_herb_lots d)
     \<and> snd (kl_take_herb sid name qty d)
         = d\<lparr>kl_herb_lots := kl_herb_lots (snd (kl_take_herb sid name qty d))\<rparr>"
proof -
  have db: "distinct (map b_id (fbh_batches d))" and dl: "distinct (map l_id (kl_herb_lots d))"
    using assms by (simp_all add: keys_ok_def)
  show ?thesis
    using fbh_take_frame [OF db, of sid name qty] kl_take_herb_frame [OF dl, of sid name qty]
    by (simp add: fbh_take_snd kl_take_herb_snd [OF dl])
qed

theorem C10_take_frame_witness:
  "keys_ok lots_fresh_and_dried
   \<and> map l_id (filter (\<lambda>r. \<not> (l_storage_id r = 3 \<and> l_herb_key r = ''minze''))
                  (kl_herb_lots lots_fresh_and_dried)) = [3, 4]
   \<and> filter (\<lambda>r. \<not> (l_storage_id r = 3 \<and> l_herb_key r = ''minze''))
        (kl_herb_lots (snd (kl_take_herb 3 ''Minze'' 5 lots_fresh_and_dried)))
      = filter (\<lambda>r. \<not> (l_storage_id r = 3 \<and> l_herb_key r = ''minze''))
          (kl_herb_lots lots_fresh_and_dried)
   \<and> map l_id (kl_herb_lots (snd (kl_take_herb 3 ''Minze'' 5 lots_fresh_and_dried))) = [1, 3, 4]
   \<and> fbh_batches (snd (kl_take_herb 3 ''Minze'' 5 lots_fresh_and_dried))
      = fbh_batches lots_fresh_and_dried
   \<and> kl_pantry (snd (kl_take_herb 3 ''Minze'' 5 lots_fresh_and_dried))
      = kl_pantry lots_fresh_and_dried"
proof -
  have k: "keys_ok lots_fresh_and_dried" by code_simp
  have n: "norm_key ''Minze'' = ''minze''" by code_simp
  note T = C10_take_frame [OF k, of 3 "''Minze''" 5, unfolded n]
  have a: "map l_id (filter (\<lambda>r. \<not> (l_storage_id r = 3 \<and> l_herb_key r = ''minze''))
                  (kl_herb_lots lots_fresh_and_dried)) = [3, 4]"
    by code_simp
  have b: "map l_id (kl_herb_lots (snd (kl_take_herb 3 ''Minze'' 5 lots_fresh_and_dried))) = [1, 3, 4]"
    by code_simp
  from T have eq: "snd (kl_take_herb 3 ''Minze'' 5 lots_fresh_and_dried)
         = lots_fresh_and_dried\<lparr>kl_herb_lots :=
             kl_herb_lots (snd (kl_take_herb 3 ''Minze'' 5 lots_fresh_and_dried))\<rparr>"
    by blast
  have c: "fbh_batches (snd (kl_take_herb 3 ''Minze'' 5 lots_fresh_and_dried))
      = fbh_batches lots_fresh_and_dried"
    by (subst eq) simp
  have e: "kl_pantry (snd (kl_take_herb 3 ''Minze'' 5 lots_fresh_and_dried))
      = kl_pantry lots_fresh_and_dried"
    by (subst eq) simp
  from T k a b c e show ?thesis by blast
qed


subsection \<open>Fresh lots before dried lots\<close>

lemma kl_total_available_split:
  "kl_total_available sid k d = kl_state_total sid k Frisch d + kl_state_total sid k Getrocknet d"
proof -
  have "sum_list (map l_qty (filter (\<lambda>r. l_storage_id r = sid \<and> l_herb_key r = k) T))
        = sum_list (map l_qty (filter (\<lambda>r. l_storage_id r = sid \<and> l_herb_key r = k \<and> l_state r = Frisch) T))
        + sum_list (map l_qty (filter (\<lambda>r. l_storage_id r = sid \<and> l_herb_key r = k \<and> l_state r = Getrocknet) T))"
    for T
  proof (induction T)
    case Nil
    then show ?case by simp
  next
    case (Cons a T)
    then show ?case by (cases "l_state a") auto
  qed
  then show ?thesis
    by (simp add: kl_total_available_def kl_state_total_def kl_rows_def)
qed

lemma kl_order_facts:
  assumes "distinct (map l_id (kl_herb_lots d))"
  shows "set (kl_order sid k d) \<subseteq> set (kl_herb_lots d)"
    and "distinct (map l_id (kl_order sid k d))"
    and "sum_list (map l_qty (kl_order sid k d)) = kl_total_available sid k d"
    and "set (kl_order sid k d)
         = {r \<in> set (kl_herb_lots d). l_storage_id r = sid \<and> l_herb_key r = k}"
proof -
  show "set (kl_order sid k d) \<subseteq> set (kl_herb_lots d)"
    by (auto simp: kl_order_def kl_rows_def)
  show "sum_list (map l_qty (kl_order sid k d)) = kl_total_available sid k d"
    by (simp add: kl_order_def kl_total_available_split kl_state_total_def sum_list_sort_key)
  show "set (kl_order sid k d)
         = {r \<in> set (kl_herb_lots d). l_storage_id r = sid \<and> l_herb_key r = k}"
  proof -
    have "l_state r = Frisch \<or> l_state r = Getrocknet" for r
      by (cases "l_state r") auto
    then show ?thesis by (auto simp: kl_order_def kl_rows_def)
  qed
  have inj: "inj_on l_id (set (kl_herb_lots d))" and dT: "distinct (kl_herb_lots d)"
    using assms by (auto simp: distinct_map)
  have "distinct (kl_order sid k d)"
    using dT by (auto simp: kl_order_def kl_rows_def)
  moreover have "inj_on l_id (set (kl_order sid k d))"
    by (rule inj_on_subset [OF inj]) (auto simp: kl_order_def kl_rows_def)
  ultimately show "distinct (map l_id (kl_order sid k d))"
    by (simp add: distinct_map)
qed

lemma kl_take_herb_fifo:
  assumes "keys_ok d" "quantities_positive d" "0 < qty"
  shows "kl_take_herb sid name qty d =
           (min qty (kl_total_available sid (norm_key name) d),
            d\<lparr>kl_herb_lots := fifo_table l_id l_qty set_l_qty (kl_order sid (norm_key name) d)
                                 qty (kl_herb_lots d)\<rparr>)"
proof -
  let ?rs = "kl_order sid (norm_key name) d"
  have dist: "distinct (map l_id (kl_herb_lots d))"
    using assms(1) by (simp add: keys_ok_def)
  have pos: "\<forall>x\<in>set ?rs. 0 < l_qty x"
    using assms(2) kl_order_facts(1) [OF dist, of sid "norm_key name"]
    by (auto simp: quantities_positive_def list_all_iff)
  have "drain l_id set_l_qty (map (\<lambda>x. (l_id x, l_qty x)) ?rs) qty 0 (kl_herb_lots d) =
          (let m = (if qty \<le> 0 then 0 else min qty (sum_list (map l_qty ?rs)))
           in (qty - m, 0 + m, fifo_table l_id l_qty set_l_qty ?rs qty (kl_herb_lots d)))"
    by (rule drain_fifo) (simp_all add: dist kl_order_facts(1,2) [OF dist] pos)
  then show ?thesis
    using assms(3) by (simp add: kl_take_herb_drain [OF dist] kl_order_facts(3) [OF dist] Let_def)
qed

lemma fifo_share_prefix:
  assumes "idf x \<in> idf ` set F"
  shows "fifo_share idf qf (F @ D) t x = fifo_share idf qf F t x"
proof -
  from assms obtain y where "y \<in> set F" "\<not> idf y \<noteq> idf x" by auto
  then have "takeWhile (\<lambda>y. idf y \<noteq> idf x) (F @ D) = takeWhile (\<lambda>y. idf y \<noteq> idf x) F"
    by (rule takeWhile_append1)
  then show ?thesis by (simp add: fifo_share_def)
qed

lemma fifo_share_suffix:
  assumes "idf x \<notin> idf ` set F"
  shows "fifo_share idf qf (F @ D) t x = fifo_share idf qf D (t - sum_list (map qf F)) x"
proof -
  have "takeWhile (\<lambda>y. idf y \<noteq> idf x) (F @ D) = F @ takeWhile (\<lambda>y. idf y \<noteq> idf x) D"
    by (rule takeWhile_append2) (metis assms imageI)
  then show ?thesis by (simp add: fifo_share_def algebra_simps)
qed

lemma fifo_share_none:
  assumes "t \<le> 0" "\<forall>y\<in>set rs. 0 < qf y" "0 < qf x"
  shows "fifo_share idf qf rs t x = 0"
proof -
  have "0 \<le> sum_list (map qf (takeWhile (\<lambda>y. idf y \<noteq> idf x) rs))"
    using assms(2) by (intro sum_list_nonneg_pos) (auto dest: set_takeWhileD)
  with assms(1,3) show ?thesis by (simp add: fifo_share_def)
qed

lemma filter_map_filter_same:
  assumes "\<And>x. x \<in> set T \<Longrightarrow> Q x \<Longrightarrow> G x = Some x"
    and "\<And>x y. x \<in> set T \<Longrightarrow> \<not> Q x \<Longrightarrow> G x = Some y \<Longrightarrow> \<not> Q y"
  shows "filter Q (List.map_filter G T) = filter Q T"
  using assms by (induction T) (auto split: option.splits)

text \<open>
  C5. For a database that meets the schema's key constraints and holds positive
  quantities, and a request \<open>qty > 0\<close>: the lots of the storage and herb key are asked
  in the order fresh lots oldest first, then dried lots oldest first; the take returns
  the smaller of the request and the key's total over both states, so it may return
  less than was asked; the table afterwards is the one in which every lot has given its
  first-in-first-out share in that order; a lot gives something only if every lot
  before it in the order has given all it held; while the request does not exceed the
  fresh total the dried lots of the key are as they were, and once it reaches the fresh
  total no fresh lot of the key is left.
\<close>

theorem C5_lot_take_fresh_first:
  assumes "keys_ok d" "quantities_positive d" "0 < qty"
  shows "kl_order sid (norm_key name) d
           = sort_key l_added_at (kl_rows sid (norm_key name) Frisch d)
             @ sort_key l_added_at (kl_rows sid (norm_key name) Getrocknet d)
     \<and> fst (kl_take_herb sid name qty d) = min qty (kl_total_available sid (norm_key name) d)
     \<and> snd (kl_take_herb sid name qty d) =
         d\<lparr>kl_herb_lots := fifo_table l_id l_qty set_l_qty (kl_order sid (norm_key name) d)
                              qty (kl_herb_lots d)\<rparr>
     \<and> (\<forall>i j. i < j \<and> j < length (kl_order sid (norm_key name) d)
              \<and> 0 < fifo_share l_id l_qty (kl_order sid (norm_key name) d) qty
                      (kl_order sid (norm_key name) d ! j)
            \<longrightarrow> fifo_share l_id l_qty (kl_order sid (norm_key name) d) qty
                      (kl_order sid (norm_key name) d ! i)
                = l_qty (kl_order sid (norm_key name) d ! i))
     \<and> (qty \<le> kl_state_total sid (norm_key name) Frisch d
          \<longrightarrow> kl_rows sid (norm_key name) Getrocknet (snd (kl_take_herb sid name qty d))
              = kl_rows sid (norm_key name) Getrocknet d)
     \<and> (kl_state_total sid (norm_key name) Frisch d \<le> qty
          \<longrightarrow> kl_rows sid (norm_key name) Frisch (snd (kl_take_herb sid name qty d)) = [])"
proof -
  let ?k = "norm_key name"
  let ?rs = "kl_order sid ?k d"
  let ?F = "sort_key l_added_at (kl_rows sid ?k Frisch d)"
  let ?D = "sort_key l_added_at (kl_rows sid ?k Getrocknet d)"
  let ?T = "kl_herb_lots d"
  let ?G = "\<lambda>x. if l_id x \<in> l_id ` set ?rs
            then (let c = fifo_share l_id l_qty ?rs qty x
                  in if l_qty x - c \<le> 0 then None else Some (set_l_qty (l_qty x - c) x))
            else Some x"
  have dist: "distinct (map l_id ?T)"
    using assms(1) by (simp add: keys_ok_def)
  note of = kl_order_facts [OF dist, of sid ?k]
  have posT: "\<forall>x\<in>set ?T. 0 < l_qty x"
    using assms(2) by (auto simp: quantities_positive_def list_all_iff)
  have pos: "\<forall>x\<in>set ?rs. 0 < l_qty x"
    using posT of(1) by auto
  note eq = kl_take_herb_fifo [OF assms, of sid name]
  have rsFD: "?rs = ?F @ ?D" by (simp add: kl_order_def)
  have sumF: "sum_list (map l_qty ?F) = kl_state_total sid ?k Frisch d"
    by (simp add: kl_state_total_def sum_list_sort_key)
  have inj: "\<And>x y. x \<in> set ?T \<Longrightarrow> y \<in> set ?T \<Longrightarrow> l_id x = l_id y \<Longrightarrow> x = y"
    using dist by (metis distinct_map inj_onD)
  have inF: "l_id x \<in> l_id ` set ?F \<longleftrightarrow> l_storage_id x = sid \<and> l_herb_key x = ?k \<and> l_state x = Frisch"
    if "x \<in> set ?T" for x
  proof
    assume "l_id x \<in> l_id ` set ?F"
    then obtain y where "y \<in> set (kl_rows sid ?k Frisch d)" "l_id y = l_id x" by auto
    moreover from this have "y \<in> set ?T" by (simp add: kl_rows_def)
    ultimately show "l_storage_id x = sid \<and> l_herb_key x = ?k \<and> l_state x = Frisch"
      using inj [OF _ that] by (auto simp: kl_rows_def)
  next
    assume "l_storage_id x = sid \<and> l_herb_key x = ?k \<and> l_state x = Frisch"
    with that show "l_id x \<in> l_id ` set ?F" by (auto simp: kl_rows_def)
  qed
  have inrs: "l_id x \<in> l_id ` set ?rs \<longleftrightarrow> l_storage_id x = sid \<and> l_herb_key x = ?k"
    if "x \<in> set ?T" for x
  proof
    assume "l_id x \<in> l_id ` set ?rs"
    then obtain y where "y \<in> set ?rs" "l_id y = l_id x" by auto
    moreover from this of(1) have "y \<in> set ?T" by auto
    ultimately show "l_storage_id x = sid \<and> l_herb_key x = ?k"
      using inj [OF _ that] of(4) by auto
  next
    assume "l_storage_id x = sid \<and> l_herb_key x = ?k"
    with that of(4) show "l_id x \<in> l_id ` set ?rs" by auto
  qed
  have c4: "\<forall>i j. i < j \<and> j < length ?rs \<and> 0 < fifo_share l_id l_qty ?rs qty (?rs ! j)
            \<longrightarrow> fifo_share l_id l_qty ?rs qty (?rs ! i) = l_qty (?rs ! i)"
    using fifo_share_older_first [OF of(2) pos] by blast
  have tbl: "kl_herb_lots (snd (kl_take_herb sid name qty d)) = List.map_filter ?G ?T"
    by (simp add: eq fifo_table_def)
  have c5: "qty \<le> kl_state_total sid ?k Frisch d
          \<longrightarrow> kl_rows sid ?k Getrocknet (snd (kl_take_herb sid name qty d))
              = kl_rows sid ?k Getrocknet d"
  proof
    assume le: "qty \<le> kl_state_total sid ?k Frisch d"
    have "filter (\<lambda>r. l_storage_id r = sid \<and> l_herb_key r = ?k \<and> l_state r = Getrocknet)
            (List.map_filter ?G ?T)
          = filter (\<lambda>r. l_storage_id r = sid \<and> l_herb_key r = ?k \<and> l_state r = Getrocknet) ?T"
    proof (rule filter_map_filter_same)
      fix x assume x: "x \<in> set ?T"
        and m: "l_storage_id x = sid \<and> l_herb_key x = ?k \<and> l_state x = Getrocknet"
      from m inF [OF x] have notF: "l_id x \<notin> l_id ` set ?F" by simp
      have "fifo_share l_id l_qty (?F @ ?D) qty x
            = fifo_share l_id l_qty ?D (qty - sum_list (map l_qty ?F)) x"
        using notF by (rule fifo_share_suffix)
      also have "\<dots> = 0"
      proof (rule fifo_share_none)
        show "qty - sum_list (map l_qty ?F) \<le> 0" using le by (simp add: sumF)
        show "\<forall>y\<in>set ?D. 0 < l_qty y" using posT by (auto simp: kl_rows_def)
        show "0 < l_qty x" using posT x by auto
      qed
      finally have "fifo_share l_id l_qty ?rs qty x = 0" by (simp add: rsFD)
      moreover from posT x have "0 < l_qty x" by auto
      ultimately show "?G x = Some x" by simp
    next
      fix x y assume x: "x \<in> set ?T"
        and m: "\<not> (l_storage_id x = sid \<and> l_herb_key x = ?k \<and> l_state x = Getrocknet)"
        and g: "?G x = Some y"
      show "\<not> (l_storage_id y = sid \<and> l_herb_key y = ?k \<and> l_state y = Getrocknet)"
      proof (cases "l_id x \<in> l_id ` set ?rs")
        case True
        with g obtain n where "y = set_l_qty n x"
          by (auto simp: Let_def split: if_splits)
        with m show ?thesis by simp
      next
        case False
        with g m show ?thesis by simp
      qed
    qed
    then show "kl_rows sid ?k Getrocknet (snd (kl_take_herb sid name qty d))
              = kl_rows sid ?k Getrocknet d"
      by (simp add: kl_rows_def tbl)
  qed
  have c6: "kl_state_total sid ?k Frisch d \<le> qty
          \<longrightarrow> kl_rows sid ?k Frisch (snd (kl_take_herb sid name qty d)) = []"
  proof
    assume le: "kl_state_total sid ?k Frisch d \<le> qty"
    have dF: "distinct (map l_id ?F)"
      using of(2) by (simp add: rsFD)
    have posF: "\<forall>x\<in>set ?F. 0 < l_qty x"
      using pos by (simp add: rsFD)
    have "\<not> (l_storage_id y = sid \<and> l_herb_key y = ?k \<and> l_state y = Frisch)"
      if y: "y \<in> set (List.map_filter ?G ?T)" for y
    proof -
      from y obtain x where x: "x \<in> set ?T" and g: "?G x = Some y"
        by (auto simp: set_map_filter)
      show ?thesis
      proof (cases "l_id x \<in> l_id ` set ?F")
        case True
        with inF [OF x] have xF: "x \<in> set ?F" using x by (simp add: kl_rows_def)
        have "fifo_share l_id l_qty (?F @ ?D) qty x = fifo_share l_id l_qty ?F qty x"
          using True by (rule fifo_share_prefix)
        also have "\<dots> = l_qty x"
          using dF posF xF le by (intro fifo_share_all) (simp_all add: sumF)
        finally have "fifo_share l_id l_qty ?rs qty x = l_qty x" by (simp add: rsFD)
        moreover from True have "l_id x \<in> l_id ` set ?rs" by (auto simp: rsFD)
        ultimately show ?thesis using g by simp
      next
        case False
        with inF [OF x] have nx: "\<not> (l_storage_id x = sid \<and> l_herb_key x = ?k \<and> l_state x = Frisch)"
          by simp
        show ?thesis
        proof (cases "l_id x \<in> l_id ` set ?rs")
          case True
          with g obtain n where "y = set_l_qty n x"
            by (auto simp: Let_def split: if_splits)
          with nx show ?thesis by simp
        next
          case False
          with g nx show ?thesis by simp
        qed
      qed
    qed
    then show "kl_rows sid ?k Frisch (snd (kl_take_herb sid name qty d)) = []"
      by (auto simp: kl_rows_def tbl filter_empty_conv)
  qed
  from rsFD c4 c5 c6 eq show ?thesis by simp
qed

theorem C5_lot_take_fresh_first_witness:
  "keys_ok lots_fresh_and_dried \<and> quantities_positive lots_fresh_and_dried
   \<and> map (\<lambda>r. (l_id r, l_state r, l_qty r)) (kl_order 3 ''minze'' lots_fresh_and_dried)
       = [(2, Frisch, 4), (1, Getrocknet, 2)]
   \<and> fst (kl_take_herb 3 ''Minze'' 5 lots_fresh_and_dried) = 5
   \<and> map (\<lambda>r. (l_id r, l_state r, l_qty r))
         (kl_herb_lots (snd (kl_take_herb 3 ''Minze'' 5 lots_fresh_and_dried)))
       = [(1, Getrocknet, 1), (3, Frisch, 3), (4, Frisch, 6)]
   \<and> kl_rows 3 ''minze'' Frisch (snd (kl_take_herb 3 ''Minze'' 5 lots_fresh_and_dried)) = []
   \<and> fst (kl_take_herb 3 ''Minze'' 9 lots_fresh_and_dried) = 6
   \<and> kl_rows 3 ''minze'' Getrocknet (snd (kl_take_herb 3 ''Minze'' 4 lots_fresh_and_dried))
       = kl_rows 3 ''minze'' Getrocknet lots_fresh_and_dried"
proof -
  have k: "keys_ok lots_fresh_and_dried" and p: "quantities_positive lots_fresh_and_dried"
    by code_simp+
  have n: "norm_key ''Minze'' = ''minze''" by code_simp
  have q5: "(0::int) < 5" and q9: "(0::int) < 9" and q4: "(0::int) < 4" by simp_all
  note A = C5_lot_take_fresh_first [OF k p q5, of 3 "''Minze''", unfolded n]
  note B = C5_lot_take_fresh_first [OF k p q9, of 3 "''Minze''", unfolded n]
  note C = C5_lot_take_fresh_first [OF k p q4, of 3 "''Minze''", unfolded n]
  have tot: "kl_total_available 3 ''minze'' lots_fresh_and_dried = 6"
    and fr: "kl_state_total 3 ''minze'' Frisch lots_fresh_and_dried = 4"
    by code_simp+
  have o: "map (\<lambda>r. (l_id r, l_state r, l_qty r)) (kl_order 3 ''minze'' lots_fresh_and_dried)
       = [(2, Frisch, 4), (1, Getrocknet, 2)]"
    by code_simp
  have tbl: "map (\<lambda>r. (l_id r, l_state r, l_qty r))
         (fifo_table l_id l_qty set_l_qty (kl_order 3 ''minze'' lots_fresh_and_dried) 5
            (kl_herb_lots lots_fresh_and_dried))
       = [(1, Getrocknet, 1), (3, Frisch, 3), (4, Frisch, 6)]"
    by code_simp
  from A have a1: "fst (kl_take_herb 3 ''Minze'' 5 lots_fresh_and_dried) = 5"
    by (simp add: tot)
  from A have "kl_herb_lots (snd (kl_take_herb 3 ''Minze'' 5 lots_fresh_and_dried))
      = fifo_table l_id l_qty set_l_qty (kl_order 3 ''minze'' lots_fresh_and_dried) 5
            (kl_herb_lots lots_fresh_and_dried)"
    by simp
  with tbl have a2: "map (\<lambda>r. (l_id r, l_state r, l_qty r))
         (kl_herb_lots (snd (kl_take_herb 3 ''Minze'' 5 lots_fresh_and_dried)))
       = [(1, Getrocknet, 1), (3, Frisch, 3), (4, Frisch, 6)]"
    by simp
  have "kl_state_total 3 ''minze'' Frisch lots_fresh_and_dried \<le> 5"
    by (simp add: fr)
  with A have a3: "kl_rows 3 ''minze'' Frisch (snd (kl_take_herb 3 ''Minze'' 5 lots_fresh_and_dried)) = []"
    by blast
  from B have b1: "fst (kl_take_herb 3 ''Minze'' 9 lots_fresh_and_dried) = 6"
    by (simp add: tot)
  have "4 \<le> kl_state_total 3 ''minze'' Frisch lots_fresh_and_dried"
    by (simp add: fr)
  with C have c1: "kl_rows 3 ''minze'' Getrocknet (snd (kl_take_herb 3 ''Minze'' 4 lots_fresh_and_dried))
       = kl_rows 3 ''minze'' Getrocknet lots_fresh_and_dried"
    by blast
  from k p o a1 a2 a3 b1 c1 show ?thesis by blast
qed

subsection \<open>Aging\<close>

lemma kl_mark_dried_twice:
  "c1 \<le> c2 \<Longrightarrow>
   kl_mark_dried_older_than sid c2 (kl_mark_dried_older_than sid c1 d)
     = kl_mark_dried_older_than sid c2 d"
  by (auto simp: kl_mark_dried_older_than_def)

lemma get_settings_snd: "snd (get_settings g d) = ensure_settings g d"
  by (simp add: get_settings_def Let_def split: option.splits)

lemma ensure_settings_tables:
  "fbh_batches (ensure_settings g d) = fbh_batches d"
  "kl_herb_lots (ensure_settings g d) = kl_herb_lots d"
  "kl_pantry (ensure_settings g d) = kl_pantry d"
  "fbh_seq (ensure_settings g d) = fbh_seq d"
  "kl_seq (ensure_settings g d) = kl_seq d"
  by (simp_all add: ensure_settings_def)

lemma ensure_settings_known:
  "map_of (guild_settings d) g \<noteq> None \<Longrightarrow> ensure_settings g d = d"
  by (simp add: ensure_settings_def)

lemma kl_apply_drying_cases:
  "kl_apply_drying_if_enabled g sid now d =
     (if s_kl_trocknen (fst (get_settings g d))
      then kl_mark_dried_older_than sid (now - 604800) (ensure_settings g d)
      else ensure_settings g d)"
  using get_settings_snd [of g d]
  by (cases "get_settings g d") (simp add: kl_apply_drying_if_enabled_def)

text \<open>
  C6, as amended. An aging of a storage with a cutoff turns exactly the fresh lots of
  the storage that were added at or before the cutoff into dried ones; no row is added,
  removed or moved, every other column of every row is kept, and no other table is
  touched. A second aging with the same or a later cutoff gives what the later aging
  alone gives, so two agings with one cutoff equal one, and a lot that is dried stays
  as it is. The wrapper first reads the settings, which creates the guild's default
  settings row when it is missing; with drying switched off it does nothing else: the
  batches, the lots and the pantry are as before, and the whole database is when the
  settings row was there. With drying switched on it ages the storage with the cutoff
  seven days before now.
\<close>

theorem C6_aging_idempotent:
  "length (kl_herb_lots (kl_mark_dried_older_than sid c d)) = length (kl_herb_lots d)
   \<and> (\<forall>i < length (kl_herb_lots d).
        kl_herb_lots (kl_mark_dried_older_than sid c d) ! i
          = (if dries sid c (kl_herb_lots d ! i)
             then (kl_herb_lots d ! i)\<lparr>l_state := Getrocknet\<rparr>
             else kl_herb_lots d ! i))
   \<and> (\<forall>r. l_state r = Getrocknet \<longrightarrow> \<not> dries sid c r)
   \<and> map (\<lambda>r. r\<lparr>l_state := Frisch\<rparr>) (kl_herb_lots (kl_mark_dried_older_than sid c d))
     = map (\<lambda>r. r\<lparr>l_state := Frisch\<rparr>) (kl_herb_lots d)
   \<and> kl_mark_dried_older_than sid c d
     = d\<lparr>kl_herb_lots := kl_herb_lots (kl_mark_dried_older_than sid c d)\<rparr>
   \<and> (c \<le> c' \<longrightarrow>
        kl_mark_dried_older_than sid c' (kl_mark_dried_older_than sid c d)
          = kl_mark_dried_older_than sid c' d)
   \<and> kl_mark_dried_older_than sid c (kl_mark_dried_older_than sid c d)
        = kl_mark_dried_older_than sid c d
   \<and> (\<not> s_kl_trocknen (fst (get_settings g d)) \<longrightarrow>
        kl_apply_drying_if_enabled g sid now d = ensure_settings g d
        \<and> kl_herb_lots (kl_apply_drying_if_enabled g sid now d) = kl_herb_lots d
        \<and> fbh_batches (kl_apply_drying_if_enabled g sid now d) = fbh_batches d
        \<and> kl_pantry (kl_apply_drying_if_enabled g sid now d) = kl_pantry d
        \<and> (map_of (guild_settings d) g \<noteq> None \<longrightarrow> kl_apply_drying_if_enabled g sid now d = d))
   \<and> (s_kl_trocknen (fst (get_settings g d)) \<longrightarrow>
        kl_apply_drying_if_enabled g sid now d
          = kl_mark_dried_older_than sid (now - 7 * 24 * 60 * 60) (ensure_settings g d))"
proof -
  have a: "\<forall>i < length (kl_herb_lots d).
        kl_herb_lots (kl_mark_dried_older_than sid c d) ! i
          = (if dries sid c (kl_herb_lots d ! i)
             then (kl_herb_lots d ! i)\<lparr>l_state := Getrocknet\<rparr>
             else kl_herb_lots d ! i)"
    by (simp add: kl_mark_dried_older_than_def dries_def)
  have b: "map (\<lambda>r. r\<lparr>l_state := Frisch\<rparr>) (kl_herb_lots (kl_mark_dried_older_than sid c d))
     = map (\<lambda>r. r\<lparr>l_state := Frisch\<rparr>) (kl_herb_lots d)"
    by (simp add: kl_mark_dried_older_than_def)
  have e: "kl_mark_dried_older_than sid c d
     = d\<lparr>kl_herb_lots := kl_herb_lots (kl_mark_dried_older_than sid c d)\<rparr>"
    by (simp add: kl_mark_dried_older_than_def)
  have f: "\<forall>r. l_state r = Getrocknet \<longrightarrow> \<not> dries sid c r"
    by (simp add: dries_def)
  have l: "length (kl_herb_lots (kl_mark_dried_older_than sid c d)) = length (kl_herb_lots d)"
    by (simp add: kl_mark_dried_older_than_def)
  have w: "(\<not> s_kl_trocknen (fst (get_settings g d)) \<longrightarrow>
        kl_apply_drying_if_enabled g sid now d = ensure_settings g d
        \<and> kl_herb_lots (kl_apply_drying_if_enabled g sid now d) = kl_herb_lots d
        \<and> fbh_batches (kl_apply_drying_if_enabled g sid now d) = fbh_batches d
        \<and> kl_pantry (kl_apply_drying_if_enabled g sid now d) = kl_pantry d
        \<and> (map_of (guild_settings d) g \<noteq> None \<longrightarrow> kl_apply_drying_if_enabled g sid now d = d))
   \<and> (s_kl_trocknen (fst (get_settings g d)) \<longrightarrow>
        kl_apply_drying_if_enabled g sid now d
          = kl_mark_dried_older_than sid (now - 7 * 24 * 60 * 60) (ensure_settings g d))"
    by (simp add: kl_apply_drying_cases ensure_settings_tables ensure_settings_known)
  from a b e f l w kl_mark_dried_twice [of c c' sid d] kl_mark_dried_twice [of c c sid d]
  show ?thesis by blast
qed

theorem C6_aging_idempotent_witness:
  "s_kl_trocknen (fst (get_settings 9 one_fresh_lot))
   \<and> map (\<lambda>r. (l_id r, l_state r, l_qty r, l_added_at r)) (kl_herb_lots one_fresh_lot)
       = [(1, Frisch, 4, 1000)]
   \<and> dries 3 (1000 + 7 * 24 * 60 * 60 - 7 * 24 * 60 * 60) (kl_herb_lots one_fresh_lot ! 0)
   \<and> map (\<lambda>r. (l_id r, l_state r, l_qty r, l_added_at r))
        (kl_herb_lots (kl_apply_drying_if_enabled 9 3 (1000 + 7 * 24 * 60 * 60) one_fresh_lot))
       = [(1, Getrocknet, 4, 1000)]
   \<and> kl_apply_drying_if_enabled 9 3 (1000 + 8 * 24 * 60 * 60)
        (kl_apply_drying_if_enabled 9 3 (1000 + 7 * 24 * 60 * 60) one_fresh_lot)
       = kl_apply_drying_if_enabled 9 3 (1000 + 7 * 24 * 60 * 60) one_fresh_lot
   \<and> \<not> s_kl_trocknen (fst (get_settings 8 one_fresh_lot))
   \<and> kl_herb_lots (kl_apply_drying_if_enabled 8 3 (1000 + 7 * 24 * 60 * 60) one_fresh_lot)
       = kl_herb_lots one_fresh_lot
   \<and> (0::int) \<le> 1"
proof -
  have on: "s_kl_trocknen (fst (get_settings 9 one_fresh_lot))"
    and off: "\<not> s_kl_trocknen (fst (get_settings 8 one_fresh_lot))"
    by code_simp+
  have rows: "map (\<lambda>r. (l_id r, l_state r, l_qty r, l_added_at r)) (kl_herb_lots one_fresh_lot)
       = [(1, Frisch, 4, 1000)]"
    by code_simp
  have dr: "dries 3 (1000 + 7 * 24 * 60 * 60 - 7 * 24 * 60 * 60) (kl_herb_lots one_fresh_lot ! 0)"
    by code_simp
  have res: "map (\<lambda>r. (l_id r, l_state r, l_qty r, l_added_at r))
        (kl_herb_lots (kl_apply_drying_if_enabled 9 3 (1000 + 7 * 24 * 60 * 60) one_fresh_lot))
       = [(1, Getrocknet, 4, 1000)]"
    by code_simp
  have again: "kl_apply_drying_if_enabled 9 3 (1000 + 8 * 24 * 60 * 60)
        (kl_apply_drying_if_enabled 9 3 (1000 + 7 * 24 * 60 * 60) one_fresh_lot)
       = kl_apply_drying_if_enabled 9 3 (1000 + 7 * 24 * 60 * 60) one_fresh_lot"
    by code_simp
  from off C6_aging_idempotent [of 3 0 one_fresh_lot 1 8 "1000 + 7 * 24 * 60 * 60"]
  have same: "kl_herb_lots (kl_apply_drying_if_enabled 8 3 (1000 + 7 * 24 * 60 * 60) one_fresh_lot)
       = kl_herb_lots one_fresh_lot"
    by blast
  from on off rows dr res again same show ?thesis by simp
qed

text \<open>
  The claim as stated fails: with drying switched off, the wrapper still writes when the
  guild has no settings row yet. On the empty database it leaves a database that is not
  the one it was given: the table of settings has gained the guild's row.
\<close>

theorem C6_wrapper_counterexample:
  "\<not> s_kl_trocknen (fst (get_settings 9 empty_db))
   \<and> kl_apply_drying_if_enabled 9 3 1000 empty_db \<noteq> empty_db
   \<and> guild_settings empty_db = []
   \<and> guild_settings (kl_apply_drying_if_enabled 9 3 1000 empty_db) = [(9, default_settings)]"
proof -
  have a: "\<not> s_kl_trocknen (fst (get_settings 9 empty_db))"
    by (simp add: get_settings_def ensure_settings_def empty_db_def default_settings_def)
  have b: "guild_settings (kl_apply_drying_if_enabled 9 3 1000 empty_db) = [(9, default_settings)]"
    by (simp add: kl_apply_drying_cases a) (simp add: ensure_settings_def empty_db_def)
  have c: "guild_settings empty_db = []" by (simp add: empty_db_def)
  from b c have "kl_apply_drying_if_enabled 9 3 1000 empty_db \<noteq> empty_db" by auto
  with a b c show ?thesis by simp
qed

subsection \<open>The totals of a storage\<close>

lemma sum_list_pos_nonempty:
  "xs \<noteq> [] \<Longrightarrow> \<forall>x\<in>set xs. (0::int) < f x \<Longrightarrow> 0 < sum_list (map f xs)"
proof (induction xs)
  case Nil
  then show ?case by simp
next
  case (Cons a xs)
  then have "0 \<le> sum_list (map f xs)" by (intro sum_list_nonneg_pos) auto
  with Cons.prems show ?case by auto
qed

lemma fbh_rows_of_key:
  "filter (\<lambda>r. b_item_key r = k) (filter (\<lambda>r. b_storage_id r = sid) (fbh_batches d))
     = fbh_rows sid k d"
  by (auto simp: fbh_rows_def intro: filter_cong)

lemma fbh_total_positive:
  assumes "list_all (\<lambda>r. 0 < b_qty r) (fbh_batches d)"
  shows "fbh_total sid d =
           sort_key (\<lambda>r. nocase (fst r))
             (map (\<lambda>k. (b_item_display (hd (fbh_rows sid k d)), fbh_key_total sid k d))
                  (fbh_keys sid d))"
proof -
  have "0 < fbh_key_total sid k d" if "k \<in> set (fbh_keys sid d)" for k
  proof -
    from that have "fbh_rows sid k d \<noteq> []"
      by (auto simp: fbh_keys_def fbh_rows_def filter_empty_conv)
    moreover have "\<forall>x\<in>set (fbh_rows sid k d). 0 < b_qty x"
      using assms by (auto simp: fbh_rows_def list_all_iff)
    ultimately show ?thesis
      unfolding fbh_key_total_def by (rule sum_list_pos_nonempty)
  qed
  then have "filter (\<lambda>r. snd r > 0)
        (sort_key (\<lambda>r. nocase (fst r))
             (map (\<lambda>k. (b_item_display (hd (fbh_rows sid k d)), fbh_key_total sid k d))
                  (fbh_keys sid d)))
      = sort_key (\<lambda>r. nocase (fst r))
             (map (\<lambda>k. (b_item_display (hd (fbh_rows sid k d)), fbh_key_total sid k d))
                  (fbh_keys sid d))"
    by (intro filter_True) auto
  moreover have "fbh_total sid d = filter (\<lambda>r. snd r > 0)
        (sort_key (\<lambda>r. nocase (fst r))
             (map (\<lambda>k. (b_item_display (hd (fbh_rows sid k d)), fbh_key_total sid k d))
                  (fbh_keys sid d)))"
    unfolding fbh_total_def Let_def fbh_rows_of_key fbh_keys_def fbh_key_total_def ..
  ultimately show ?thesis by simp
qed

lemma fbh_total_nonempty:
  assumes "list_all (\<lambda>r. 0 < b_qty r) (fbh_batches d)"
    and "filter (\<lambda>r. b_storage_id r = sid) (fbh_batches d) \<noteq> []"
  shows "fbh_total sid d \<noteq> []"
proof -
  from assms(2) have "fbh_keys sid d \<noteq> []" by (simp add: fbh_keys_def)
  then have "length (fbh_total sid d) \<noteq> 0"
    by (simp add: fbh_total_positive [OF assms(1)])
  then show ?thesis by auto
qed

subsection \<open>The status of a pile\<close>

lemma status_flags_any:
  "status_flags bs now s e ra sa =
     (ra \<or> list_ex (\<lambda>b. fbh_status_for_age_days ((now - snd (snd b)) div (24 * 60 * 60)) s e
                         = Verdorben) bs,
      sa \<or> list_ex (\<lambda>b. fbh_status_for_age_days ((now - snd (snd b)) div (24 * 60 * 60)) s e
                         = Mueffelt) bs)"
proof (induction bs arbitrary: ra sa)
  case Nil
  then show ?case by simp
next
  case (Cons b bs)
  obtain name qty added_at where b: "b = (name, qty, added_at)" by (cases b)
  show ?case by (auto simp: b Cons.IH Let_def)
qed

lemma list_ex_for_status:
  "list_ex (\<lambda>b. fbh_status_for_age_days ((now - snd (snd b)) div (24 * 60 * 60)) s e = v)
     (fbh_batches_for_status sid d)
   = list_ex (\<lambda>r. fbh_status_for_age_days ((now - b_added_at r) div (24 * 60 * 60)) s e = v)
       (filter (\<lambda>r. b_storage_id r = sid) (fbh_batches d))"
  by (auto simp: fbh_batches_for_status_def list_ex_iff)

text \<open>
  C4. For a storage that holds at least one batch, all quantities being positive, the
  answer shows the worst status among the batches of the storage: ruined when a batch
  classifies as ruined under the guild's settings, otherwise smelly when a batch
  classifies as smelly, otherwise fresh; and it shows the totals. Computing the answer
  leaves the batches, the lots and the pantry as they were: the only write is the
  creation of the guild's default settings row when it is missing. A storage with
  batches aged 3 and 20 days shows ruined under the default thresholds.
\<close>

theorem C4_pile_status_worst:
  assumes "list_all (\<lambda>r. 0 < b_qty r) (fbh_batches d)"
    and "filter (\<lambda>r. b_storage_id r = sid) (fbh_batches d) \<noteq> []"
  shows "fst (inventar_anzeigen_fbh g sid now d) =
           FBH_Inventar (s_saison (fst (get_settings g d)))
             (s_fbh_saison_verderb (fst (get_settings g d)))
             (if list_ex (\<lambda>r. batch_status now (fst (get_settings g d)) r = Verdorben)
                   (filter (\<lambda>r. b_storage_id r = sid) (fbh_batches d))
              then VERDORBEN
              else if list_ex (\<lambda>r. batch_status now (fst (get_settings g d)) r = Mueffelt)
                        (filter (\<lambda>r. b_storage_id r = sid) (fbh_batches d))
                   then MUEFFELT else FRISCH)
             (fbh_total sid d)
     \<and> snd (inventar_anzeigen_fbh g sid now d) = ensure_settings g d
     \<and> fbh_batches (snd (inventar_anzeigen_fbh g sid now d)) = fbh_batches d
     \<and> kl_herb_lots (snd (inventar_anzeigen_fbh g sid now d)) = kl_herb_lots d
     \<and> kl_pantry (snd (inventar_anzeigen_fbh g sid now d)) = kl_pantry d"
proof -
  obtain st d1 where gs: "get_settings g d = (st, d1)" by (cases "get_settings g d")
  with get_settings_snd [of g d] have d1: "d1 = ensure_settings g d" by simp
  have tot: "fbh_total sid (ensure_settings g d) = fbh_total sid d"
    by (simp add: fbh_total_def ensure_settings_tables)
  have st: "fbh_batches_for_status sid (ensure_settings g d) = fbh_batches_for_status sid d"
    by (simp add: fbh_batches_for_status_def ensure_settings_tables)
  have ne: "fbh_total sid d \<noteq> []" using assms by (rule fbh_total_nonempty)
  show ?thesis
    using ne
      list_ex_for_status [of now "s_saison st" "s_fbh_saison_verderb st" Verdorben sid d]
      list_ex_for_status [of now "s_saison st" "s_fbh_saison_verderb st" Mueffelt sid d]
    by (simp add: inventar_anzeigen_fbh_def gs tot st status_flags_any
        batch_status_def d1 ensure_settings_tables Let_def)
qed

theorem C4_pile_status_worst_witness:
  "list_all (\<lambda>r. 0 < b_qty r) (fbh_batches batches_aged_3_and_20)
   \<and> map (\<lambda>r. (2000000 - b_added_at r) div 86400)
        (filter (\<lambda>r. b_storage_id r = 3) (fbh_batches batches_aged_3_and_20)) = [20, 3]
   \<and> map (batch_status 2000000 (fst (get_settings 9 batches_aged_3_and_20)))
        (filter (\<lambda>r. b_storage_id r = 3) (fbh_batches batches_aged_3_and_20))
       = [Verdorben, Frisch_status]
   \<and> fst (inventar_anzeigen_fbh 9 3 2000000 batches_aged_3_and_20)
       = FBH_Inventar Blattfrische False VERDORBEN [(''Fisch'', 1), (''Maus'', 2)]
   \<and> fbh_batches (snd (inventar_anzeigen_fbh 9 3 2000000 batches_aged_3_and_20))
       = fbh_batches batches_aged_3_and_20"
proof -
  have p: "list_all (\<lambda>r. 0 < b_qty r) (fbh_batches batches_aged_3_and_20)"
    and n: "filter (\<lambda>r. b_storage_id r = 3) (fbh_batches batches_aged_3_and_20) \<noteq> []"
    by code_simp+
  note T = C4_pile_status_worst [OF p n, of 9 2000000]
  have ages: "map (\<lambda>r. (2000000 - b_added_at r) div 86400)
        (filter (\<lambda>r. b_storage_id r = 3) (fbh_batches batches_aged_3_and_20)) = [20, 3]"
    by code_simp
  have sts: "map (batch_status 2000000 (fst (get_settings 9 batches_aged_3_and_20)))
        (filter (\<lambda>r. b_storage_id r = 3) (fbh_batches batches_aged_3_and_20))
       = [Verdorben, Frisch_status]"
    by code_simp
  have rhs: "FBH_Inventar (s_saison (fst (get_settings 9 batches_aged_3_and_20)))
             (s_fbh_saison_verderb (fst (get_settings 9 batches_aged_3_and_20)))
             (if list_ex (\<lambda>r. batch_status 2000000 (fst (get_settings 9 batches_aged_3_and_20)) r = Verdorben)
                   (filter (\<lambda>r. b_storage_id r = 3) (fbh_batches batches_aged_3_and_20))
              then VERDORBEN
              else if list_ex (\<lambda>r. batch_status 2000000 (fst (get_settings 9 batches_aged_3_and_20)) r = Mueffelt)
                        (filter (\<lambda>r. b_storage_id r = 3) (fbh_batches batches_aged_3_and_20))
                   then MUEFFELT else FRISCH)
             (fbh_total 3 batches_aged_3_and_20)
       = FBH_Inventar Blattfrische False VERDORBEN [(''Fisch'', 1), (''Maus'', 2)]"
    by code_simp
  from T rhs have a: "fst (inventar_anzeigen_fbh 9 3 2000000 batches_aged_3_and_20)
       = FBH_Inventar Blattfrische False VERDORBEN [(''Fisch'', 1), (''Maus'', 2)]"
    by simp
  from T p ages sts a show ?thesis by blast
qed

subsection \<open>Every operation keeps the constraints and the positive quantities\<close>

lemma kl_add_herb_keys_ok: "keys_ok d \<Longrightarrow> keys_ok (kl_add_herb sid name q u now d)"
  by (fastforce simp: keys_ok_def kl_add_herb_def Let_def list_all_iff)

lemma kl_add_herb_positive:
  "0 < q \<Longrightarrow> quantities_positive d \<Longrightarrow> quantities_positive (kl_add_herb sid name q u now d)"
  by (simp add: quantities_positive_def kl_add_herb_def Let_def)

lemma kl_mark_dried_keys_ok: "keys_ok d \<Longrightarrow> keys_ok (kl_mark_dried_older_than sid c d)"
proof -
  assume k: "keys_ok d"
  have "map l_id (map (\<lambda>r. if l_storage_id r = sid \<and> l_state r = Frisch \<and> l_added_at r \<le> c
                           then r\<lparr>l_state := Getrocknet\<rparr> else r) T) = map l_id T" for T
    by (induction T) auto
  note m = this
  have "kl_herb_lots (kl_mark_dried_older_than sid c d)
        = map (\<lambda>r. if l_storage_id r = sid \<and> l_state r = Frisch \<and> l_added_at r \<le> c
                           then r\<lparr>l_state := Getrocknet\<rparr> else r) (kl_herb_lots d)"
    by (simp add: kl_mark_dried_older_than_def)
  then have "map l_id (kl_herb_lots (kl_mark_dried_older_than sid c d)) = map l_id (kl_herb_lots d)"
    by (simp only: m)
  then have "distinct (map l_id (kl_herb_lots (kl_mark_dried_older_than sid c d)))"
    using k by (simp add: keys_ok_def)
  with k show ?thesis
    by (auto simp: keys_ok_def kl_mark_dried_older_than_def list_all_iff)
qed

lemma kl_mark_dried_positive:
  "quantities_positive d \<Longrightarrow> quantities_positive (kl_mark_dried_older_than sid c d)"
  by (auto simp: quantities_positive_def kl_mark_dried_older_than_def list_all_iff)

lemma fbh_take_keys_ok:
  assumes "keys_ok d"
  shows "keys_ok (snd (fbh_take sid name qty d))"
proof -
  let ?T' = "snd (snd (drain b_id set_b_qty
                         (map (\<lambda>r. (b_id r, b_qty r)) (fbh_order sid (norm_key name) d))
                         qty 0 (fbh_batches d)))"
  have "distinct (map b_id ?T')"
    using assms by (intro drain_distinct) (simp_all add: keys_ok_def)
  moreover have "list_all (\<lambda>r. b_id r \<le> fbh_seq d) ?T'"
    using assms by (intro drain_invariant) (simp_all add: keys_ok_def)
  ultimately show ?thesis
    using assms by (simp add: fbh_take_snd keys_ok_def)
qed

lemma fbh_take_positive:
  assumes "quantities_positive d"
  shows "quantities_positive (snd (fbh_take sid name qty d))"
proof -
  let ?T' = "snd (snd (drain b_id set_b_qty
                         (map (\<lambda>r. (b_id r, b_qty r)) (fbh_order sid (norm_key name) d))
                         qty 0 (fbh_batches d)))"
  have "list_all (\<lambda>r. 0 < b_qty r) ?T'"
    using assms by (intro drain_invariant) (simp_all add: quantities_positive_def)
  then show ?thesis
    using assms by (simp add: fbh_take_snd quantities_positive_def)
qed

lemma kl_take_herb_keys_ok:
  assumes "keys_ok d"
  shows "keys_ok (snd (kl_take_herb sid name qty d))"
proof -
  have dl: "distinct (map l_id (kl_herb_lots d))" using assms by (simp add: keys_ok_def)
  let ?T' = "snd (snd (drain l_id set_l_qty
                         (map (\<lambda>r. (l_id r, l_qty r)) (kl_order sid (norm_key name) d))
                         qty 0 (kl_herb_lots d)))"
  have "distinct (map l_id ?T')"
    using dl by (intro drain_distinct) simp_all
  moreover have "list_all (\<lambda>r. l_id r \<le> kl_seq d) ?T'"
    using assms by (intro drain_invariant) (simp_all add: keys_ok_def)
  ultimately show ?thesis
    using assms by (simp add: kl_take_herb_snd [OF dl] keys_ok_def)
qed

lemma kl_take_herb_positive:
  assumes "keys_ok d" "quantities_positive d"
  shows "quantities_positive (snd (kl_take_herb sid name qty d))"
proof -
  have dl: "distinct (map l_id (kl_herb_lots d))" using assms(1) by (simp add: keys_ok_def)
  let ?T' = "snd (snd (drain l_id set_l_qty
                         (map (\<lambda>r. (l_id r, l_qty r)) (kl_order sid (norm_key name) d))
                         qty 0 (kl_herb_lots d)))"
  have "list_all (\<lambda>r. 0 < l_qty r) ?T'"
    using assms(2) by (intro drain_invariant) (simp_all add: quantities_positive_def)
  then show ?thesis
    using assms(2) by (simp add: kl_take_herb_snd [OF dl] quantities_positive_def)
qed

lemma find_None_keys:
  "find (\<lambda>r. p_storage_id r = sid \<and> p_item_key r = k) T = None
   \<Longrightarrow> (sid, k) \<notin> set (map (\<lambda>r. (p_storage_id r, p_item_key r)) T)"
  by (auto simp: find_None_iff)

lemma pantry_keys_update:
  assumes "\<And>r. p_storage_id (f r) = p_storage_id r" "\<And>r. p_item_key (f r) = p_item_key r"
  shows "map (\<lambda>r. (p_storage_id r, p_item_key r)) (map (\<lambda>r. if P r then f r else r) T)
         = map (\<lambda>r. (p_storage_id r, p_item_key r)) T"
  by (induction T) (auto simp: assms)

lemma pantry_add_keys_ok:
  assumes "keys_ok d"
  shows "keys_ok (pantry_add sid name q u now d)"
proof (cases "find (\<lambda>r. p_storage_id r = sid \<and> p_item_key r = norm_key name) (kl_pantry d)")
  case None
  from find_None_keys [OF None] assms None show ?thesis
    by (simp add: keys_ok_def pantry_add_def)
next
  case (Some row)
  have "distinct (map (\<lambda>r. (p_storage_id r, p_item_key r))
          (map (\<lambda>r. if p_storage_id r = sid \<and> p_item_key r = norm_key name
                    then r\<lparr>p_qty := p_qty row + q, p_updated_at := now, p_updated_by := u\<rparr>
                    else r) (kl_pantry d)))"
    using assms by (subst pantry_keys_update) (simp_all add: keys_ok_def)
  with assms Some show ?thesis
    by (simp add: keys_ok_def pantry_add_def Let_def del: map_map)
qed

lemma pantry_add_positive:
  assumes "0 < q" "quantities_positive d"
  shows "quantities_positive (pantry_add sid name q u now d)"
proof (cases "find (\<lambda>r. p_storage_id r = sid \<and> p_item_key r = norm_key name) (kl_pantry d)")
  case None
  with assms show ?thesis
    by (simp add: quantities_positive_def pantry_add_def)
next
  case (Some row)
  then have "row \<in> set (kl_pantry d)" by (auto simp: find_Some_iff)
  with assms(2) have "0 < p_qty row" by (auto simp: quantities_positive_def list_all_iff)
  with assms Some show ?thesis
    by (auto simp: quantities_positive_def pantry_add_def Let_def list_all_iff)
qed

lemma pantry_take_keys_ok:
  assumes "keys_ok d"
  shows "keys_ok (snd (pantry_take sid name q d))"
proof (cases "find (\<lambda>r. p_storage_id r = sid \<and> p_item_key r = norm_key name) (kl_pantry d)")
  case None
  with assms show ?thesis by (simp add: pantry_take_def)
next
  case (Some row)
  have "distinct (map (\<lambda>r. (p_storage_id r, p_item_key r))
          (map (\<lambda>r. if p_storage_id r = sid \<and> p_item_key r = norm_key name
                    then r\<lparr>p_qty := n\<rparr> else r) (kl_pantry d)))" for n
    using assms by (subst pantry_keys_update) (simp_all add: keys_ok_def)
  moreover have "distinct (map (\<lambda>r. (p_storage_id r, p_item_key r))
          (filter (\<lambda>r. \<not> (p_storage_id r = sid \<and> p_item_key r = norm_key name)) (kl_pantry d)))"
    using assms by (simp add: keys_ok_def distinct_map_filter)
  ultimately show ?thesis
    using assms Some by (simp add: keys_ok_def pantry_take_def Let_def del: map_map)
qed

lemma pantry_take_positive:
  "quantities_positive d \<Longrightarrow> quantities_positive (snd (pantry_take sid name q d))"
  by (auto simp: quantities_positive_def pantry_take_def Let_def list_all_iff
           split: option.splits)

lemma apply_op_keeps:
  assumes "keys_ok d" "quantities_positive d" "adds_positive x"
  shows "keys_ok (apply_op x d) \<and> quantities_positive (apply_op x d)"
  using assms
  by (cases x)
     (simp_all add: fbh_add_keys_ok fbh_add_positive fbh_take_keys_ok fbh_take_positive
        kl_add_herb_keys_ok kl_add_herb_positive kl_take_herb_keys_ok kl_take_herb_positive
        kl_mark_dried_keys_ok kl_mark_dried_positive pantry_add_keys_ok pantry_add_positive
        pantry_take_keys_ok pantry_take_positive)

lemma run_ops_keeps:
  "keys_ok d \<Longrightarrow> quantities_positive d \<Longrightarrow> list_all adds_positive ops \<Longrightarrow>
   keys_ok (run_ops ops d) \<and> quantities_positive (run_ops ops d)"
  unfolding run_ops_def
proof (induction ops arbitrary: d)
  case Nil
  then show ?case by simp
next
  case (Cons x ops)
  from Cons.prems have "keys_ok (apply_op x d) \<and> quantities_positive (apply_op x d)"
    by (intro apply_op_keeps) simp_all
  with Cons.IH [of "apply_op x d"] Cons.prems show ?case by simp
qed

lemma pantry_list_positive:
  assumes "list_all (\<lambda>r. 0 < p_qty r) (kl_pantry d)"
  shows "pantry_list sid d =
           sort_key (\<lambda>r. nocase (fst r))
             (map (\<lambda>r. (p_item_display r, p_qty r))
                  (filter (\<lambda>r. p_storage_id r = sid) (kl_pantry d)))"
  unfolding pantry_list_def
  using assms by (intro filter_True) (auto simp: list_all_iff)

text \<open>
  C7. From a database that meets the schema's key constraints and holds positive
  quantities, as the empty database does, every sequence of adds, takes, agings,
  produces and consumes in which each add and each produce has a positive quantity
  leads to a database in which every batch, every lot and every pantry row holds a
  positive quantity: no row is kept at zero or below. There the totals of a perishable
  storage have exactly one entry for each item key with a batch in the storage, holding
  the sum of the quantities of the batches of that key; the available total of a herb
  is the sum of its fresh and its dried lots; and the pantry list shows every pantry
  row of the storage with its quantity.
\<close>

theorem C7_positivity_invariant:
  assumes "keys_ok d" "quantities_positive d" "list_all adds_positive ops"
  shows "quantities_positive (run_ops ops d)
     \<and> keys_ok (run_ops ops d)
     \<and> fbh_total sid (run_ops ops d) =
         sort_key (\<lambda>r. nocase (fst r))
           (map (\<lambda>k. (b_item_display (hd (fbh_rows sid k (run_ops ops d))),
                      sum_list (map b_qty (fbh_rows sid k (run_ops ops d)))))
                (fbh_keys sid (run_ops ops d)))
     \<and> distinct (fbh_keys sid (run_ops ops d))
     \<and> set (fbh_keys sid (run_ops ops d))
         = b_item_key ` {r \<in> set (fbh_batches (run_ops ops d)). b_storage_id r = sid}
     \<and> kl_total_available sid k (run_ops ops d)
         = sum_list (map l_qty (kl_rows sid k Frisch (run_ops ops d)))
           + sum_list (map l_qty (kl_rows sid k Getrocknet (run_ops ops d)))
     \<and> pantry_list sid (run_ops ops d) =
         sort_key (\<lambda>r. nocase (fst r))
           (map (\<lambda>r. (p_item_display r, p_qty r))
                (filter (\<lambda>r. p_storage_id r = sid) (kl_pantry (run_ops ops d))))
     \<and> keys_ok empty_db \<and> quantities_positive empty_db"
proof -
  from run_ops_keeps [OF assms]
  have k: "keys_ok (run_ops ops d)" and p: "quantities_positive (run_ops ops d)" by simp_all
  from p have pb: "list_all (\<lambda>r. 0 < b_qty r) (fbh_batches (run_ops ops d))"
    and pp: "list_all (\<lambda>r. 0 < p_qty r) (kl_pantry (run_ops ops d))"
    by (simp_all add: quantities_positive_def)
  have e: "keys_ok empty_db \<and> quantities_positive empty_db"
    by (simp add: keys_ok_def quantities_positive_def empty_db_def)
  have ks: "distinct (fbh_keys sid (run_ops ops d))
     \<and> set (fbh_keys sid (run_ops ops d))
         = b_item_key ` {r \<in> set (fbh_batches (run_ops ops d)). b_storage_id r = sid}"
    by (auto simp: fbh_keys_def)
  from k p e ks fbh_total_positive [OF pb, of sid] pantry_list_positive [OF pp, of sid]
    kl_total_available_split [of sid k "run_ops ops d"]
  show ?thesis
    by (simp add: fbh_key_total_def kl_state_total_def)
qed

theorem C7_positivity_invariant_witness:
  "keys_ok empty_db \<and> quantities_positive empty_db \<and> list_all adds_positive some_ops
   \<and> map (\<lambda>r. (b_id r, b_item_key r, b_qty r)) (fbh_batches (run_ops some_ops empty_db))
       = [(2, ''maus'', 2)]
   \<and> map (\<lambda>r. (l_id r, l_herb_key r, l_state r, l_qty r))
         (kl_herb_lots (run_ops some_ops empty_db))
       = [(1, ''minze'', Getrocknet, 2), (2, ''minze'', Frisch, 1)]
   \<and> map (\<lambda>r. (p_item_key r, p_qty r)) (kl_pantry (run_ops some_ops empty_db))
       = [(''wundsalbe'', 1)]
   \<and> quantities_positive (run_ops some_ops empty_db)
   \<and> fbh_total 3 (run_ops some_ops empty_db) = [(''maus'', 2)]
   \<and> kl_total_available 3 ''minze'' (run_ops some_ops empty_db) = 3"
proof -
  have k: "keys_ok empty_db" and p: "quantities_positive empty_db"
    and a: "list_all adds_positive some_ops"
    by code_simp+
  note T = C7_positivity_invariant [OF k p a, of 3 "''minze''"]
  have b: "map (\<lambda>r. (b_id r, b_item_key r, b_qty r)) (fbh_batches (run_ops some_ops empty_db))
       = [(2, ''maus'', 2)]"
    by code_simp
  have l: "map (\<lambda>r. (l_id r, l_herb_key r, l_state r, l_qty r))
         (kl_herb_lots (run_ops some_ops empty_db))
       = [(1, ''minze'', Getrocknet, 2), (2, ''minze'', Frisch, 1)]"
    by code_simp
  have q: "map (\<lambda>r. (p_item_key r, p_qty r)) (kl_pantry (run_ops some_ops empty_db))
       = [(''wundsalbe'', 1)]"
    by code_simp
  have t: "fbh_total 3 (run_ops some_ops empty_db) = [(''maus'', 2)]"
    by code_simp
  have v: "sum_list (map l_qty (kl_rows 3 ''minze'' Frisch (run_ops some_ops empty_db)))
           + sum_list (map l_qty (kl_rows 3 ''minze'' Getrocknet (run_ops some_ops empty_db))) = 3"
    by code_simp
  from T v have v': "kl_total_available 3 ''minze'' (run_ops some_ops empty_db) = 3" by simp
  from T k p a b l q t v' show ?thesis by blast
qed

subsection \<open>What a take removes from the totals\<close>

lemma sum_list_filter_split:
  "sum_list (map f xs) = sum_list (map f (filter P xs)) + (sum_list (map f (filter (\<lambda>x. \<not> P x) xs)) :: int)"
  by (induction xs) auto

lemma sum_list_delete_id:
  "distinct (map idf T) \<Longrightarrow> a \<in> set T \<Longrightarrow>
   sum_list (map qf (filter (\<lambda>x. idf x \<noteq> idf a) T)) = sum_list (map qf T) - (qf a :: int)"
proof (induction T)
  case Nil
  then show ?case by simp
next
  case (Cons b T)
  show ?case
  proof (cases "b = a")
    case True
    with Cons.prems have "filter (\<lambda>x. idf x \<noteq> idf a) T = T"
      by (intro filter_True) (auto simp: image_iff)
    with True show ?thesis by simp
  next
    case False
    with Cons.prems have "a \<in> set T" "idf b \<noteq> idf a" by (auto simp: image_iff)
    with Cons show ?thesis by simp
  qed
qed

lemma sum_list_update_id:
  assumes "\<And>n x. qf (upd n x) = n"
  shows "distinct (map idf T) \<Longrightarrow> a \<in> set T \<Longrightarrow>
   sum_list (map qf (map (\<lambda>x. if idf x = idf a then upd n x else x) T))
     = sum_list (map qf T) - (qf a :: int) + n"
proof (induction T)
  case Nil
  then show ?case by simp
next
  case (Cons b T)
  show ?case
  proof (cases "b = a")
    case True
    with Cons.prems have "map (\<lambda>x. if idf x = idf a then upd n x else x) T = T"
      by (intro map_idI) (auto simp: image_iff)
    with True show ?thesis by (simp add: assms)
  next
    case False
    with Cons.prems have "a \<in> set T" "idf b \<noteq> idf a" by (auto simp: image_iff)
    with Cons show ?thesis by simp
  qed
qed

lemma drain_sum:
  assumes upd_id: "\<And>n x. idf (upd n x) = idf x"
    and upd_q: "\<And>n x. qf (upd n x) = n"
  shows "distinct (map idf T) \<Longrightarrow> set rs \<subseteq> set T \<Longrightarrow> distinct (map idf rs) \<Longrightarrow>
         sum_list (map qf (snd (snd (drain idf upd (map (\<lambda>x. (idf x, qf x)) rs) t r T))))
           + fst (snd (drain idf upd (map (\<lambda>x. (idf x, qf x)) rs) t r T))
         = sum_list (map qf T) + r"
proof (induction rs arbitrary: t r T)
  case Nil
  then show ?case by simp
next
  case (Cons a rs)
  show ?case
  proof (cases "t \<le> 0")
    case True
    then show ?thesis by simp
  next
    case False
    define take where "take = min (qf a) t"
    define T' where "T' = (if qf a - take \<le> 0 then filter (\<lambda>x. idf x \<noteq> idf a) T
                          else map (\<lambda>x. if idf x = idf a then upd (qf a - take) x else x) T)"
    have aT: "a \<in> set T" and a_notin: "idf a \<notin> idf ` set rs"
      using Cons.prems by auto
    have dT': "distinct (map idf T')"
    proof -
      have "map idf (map (\<lambda>x. if idf x = idf a then upd (qf a - take) x else x) T) = map idf T"
        by (simp add: upd_id)
      then show ?thesis using Cons.prems(1)
        by (simp add: T'_def distinct_map_filter del: map_map)
    qed
    have rsT': "set rs \<subseteq> set T'"
    proof
      fix x assume x: "x \<in> set rs"
      with a_notin have ne: "idf x \<noteq> idf a" by (metis imageI)
      from x Cons.prems(2) have "x \<in> set T" by auto
      with ne show "x \<in> set T'" by (auto simp: T'_def intro!: image_eqI [where x = x])
    qed
    have sumT': "sum_list (map qf T') = sum_list (map qf T) - take"
    proof (cases "qf a - take \<le> 0")
      case True
      then have "take = qf a" by (auto simp: take_def min_def split: if_splits)
      with True sum_list_delete_id [OF Cons.prems(1) aT, of qf] show ?thesis
        by (simp add: T'_def)
    next
      case False
      with sum_list_update_id [of qf upd, OF upd_q Cons.prems(1) aT, of "qf a - take"]
      show ?thesis by (simp add: T'_def)
    qed
    have step: "drain idf upd (map (\<lambda>x. (idf x, qf x)) (a # rs)) t r T =
          drain idf upd (map (\<lambda>x. (idf x, qf x)) rs) (t - take) (r + take) T'"
      unfolding take_def T'_def using False by (simp add: Let_def)
    from Cons.prems(3) have "distinct (map idf rs)" by simp
    from Cons.IH [OF dT' rsT' this, of "t - take" "r + take"] sumT'
    show ?thesis unfolding step by simp
  qed
qed

lemma kl_take_herb_total_same_key:
  assumes "distinct (map l_id (kl_herb_lots d))"
  shows "kl_total_available sid (norm_key name) (snd (kl_take_herb sid name qty d))
         = kl_total_available sid (norm_key name) d - fst (kl_take_herb sid name qty d)"
proof -
  let ?P = "\<lambda>r. l_storage_id r = sid \<and> l_herb_key r = norm_key name"
  let ?dr = "drain l_id set_l_qty (map (\<lambda>r. (l_id r, l_qty r)) (kl_order sid (norm_key name) d))
               qty 0 (kl_herb_lots d)"
  let ?T' = "kl_herb_lots (snd (kl_take_herb sid name qty d))"
  have T': "?T' = snd (snd ?dr)" and r: "fst (kl_take_herb sid name qty d) = fst (snd ?dr)"
    by (simp_all add: kl_take_herb_drain [OF assms] split: prod.splits)
  have "sum_list (map l_qty (snd (snd ?dr))) + fst (snd ?dr) = sum_list (map l_qty (kl_herb_lots d)) + 0"
    by (rule drain_sum) (simp_all add: assms kl_order_facts(1,2) [OF assms])
  then have all: "sum_list (map l_qty ?T') = sum_list (map l_qty (kl_herb_lots d))
                    - fst (kl_take_herb sid name qty d)"
    by (simp add: T' r)
  have other: "filter (\<lambda>r. \<not> ?P r) ?T' = filter (\<lambda>r. \<not> ?P r) (kl_herb_lots d)"
    by (rule kl_take_herb_frame [OF assms])
  have o2: "sum_list (map l_qty (filter (\<lambda>r. \<not> ?P r) ?T'))
            = sum_list (map l_qty (filter (\<lambda>r. \<not> ?P r) (kl_herb_lots d)))"
    using other by (rule arg_cong)
  have "sum_list (map l_qty (filter ?P ?T'))
        = sum_list (map l_qty (filter ?P (kl_herb_lots d))) - fst (kl_take_herb sid name qty d)"
    using sum_list_filter_split [of l_qty ?T' ?P]
      sum_list_filter_split [of l_qty "kl_herb_lots d" ?P] all o2
    by linarith
  then show ?thesis by (simp add: kl_total_available_def)
qed

lemma kl_take_herb_total_other:
  assumes "distinct (map l_id (kl_herb_lots d))" "sid' \<noteq> sid \<or> k \<noteq> norm_key name"
  shows "kl_total_available sid' k (snd (kl_take_herb sid name qty d)) = kl_total_available sid' k d"
proof -
  let ?P = "\<lambda>r. l_storage_id r = sid \<and> l_herb_key r = norm_key name"
  let ?Q = "\<lambda>r. l_storage_id r = sid' \<and> l_herb_key r = k"
  have sub: "filter ?Q T = filter ?Q (filter (\<lambda>r. \<not> ?P r) T)" for T
    using assms(2) by (auto intro: filter_cong)
  have "filter ?Q (kl_herb_lots (snd (kl_take_herb sid name qty d)))
        = filter ?Q (filter (\<lambda>r. \<not> ?P r) (kl_herb_lots (snd (kl_take_herb sid name qty d))))"
    by (rule sub)
  also have "\<dots> = filter ?Q (filter (\<lambda>r. \<not> ?P r) (kl_herb_lots d))"
    by (simp only: kl_take_herb_frame [OF assms(1)])
  also have "\<dots> = filter ?Q (kl_herb_lots d)"
    by (rule sub [symmetric])
  finally show ?thesis by (simp add: kl_total_available_def)
qed

lemma kl_take_herb_amount:
  assumes "keys_ok d" "quantities_positive d" "0 \<le> qty"
    and "qty \<le> kl_total_available sid (norm_key name) d"
  shows "fst (kl_take_herb sid name qty d) = qty"
proof (cases "qty = 0")
  case True
  then show ?thesis by (simp add: kl_take_herb_def)
next
  case False
  with assms(3) have "0 < qty" by simp
  from kl_take_herb_fifo [OF assms(1,2) this, of sid name] assms(4) show ?thesis by simp
qed

lemma kl_take_herb_others:
  assumes "keys_ok d"
  shows "kl_pantry (snd (kl_take_herb sid name qty d)) = kl_pantry d"
    and "fbh_batches (snd (kl_take_herb sid name qty d)) = fbh_batches d"
    and "guild_settings (snd (kl_take_herb sid name qty d)) = guild_settings d"
proof -
  have dl: "distinct (map l_id (kl_herb_lots d))" using assms by (simp add: keys_ok_def)
  show "kl_pantry (snd (kl_take_herb sid name qty d)) = kl_pantry d"
    and "fbh_batches (snd (kl_take_herb sid name qty d)) = fbh_batches d"
    and "guild_settings (snd (kl_take_herb sid name qty d)) = guild_settings d"
    by (simp_all add: kl_take_herb_snd [OF dl])
qed


subsection \<open>Crafting\<close>

lemma kl_total_available_ensure:
  "kl_total_available sid k (ensure_settings g d) = kl_total_available sid k d"
  by (simp add: kl_total_available_def ensure_settings_tables)

lemma kl_total_available_dried:
  "kl_total_available sid k (kl_mark_dried_older_than s c d) = kl_total_available sid k d"
proof -
  have "sum_list (map l_qty (filter (\<lambda>r. l_storage_id r = sid \<and> l_herb_key r = k)
          (map (\<lambda>r. if l_storage_id r = s \<and> l_state r = Frisch \<and> l_added_at r \<le> c
                    then r\<lparr>l_state := Getrocknet\<rparr> else r) T)))
        = sum_list (map l_qty (filter (\<lambda>r. l_storage_id r = sid \<and> l_herb_key r = k) T))" for T
    by (induction T) auto
  then show ?thesis by (simp add: kl_total_available_def kl_mark_dried_older_than_def)
qed

lemma kl_total_available_drying:
  "kl_total_available sid k (kl_apply_drying_if_enabled g s now d) = kl_total_available sid k d"
  by (simp add: kl_apply_drying_cases kl_total_available_dried kl_total_available_ensure)

lemma ensure_settings_keeps:
  "keys_ok (ensure_settings g d) = keys_ok d"
  "quantities_positive (ensure_settings g d) = quantities_positive d"
  by (simp_all add: keys_ok_def quantities_positive_def ensure_settings_tables)

lemma kl_apply_drying_keeps:
  "keys_ok d \<Longrightarrow> keys_ok (kl_apply_drying_if_enabled g s now d)"
  "quantities_positive d \<Longrightarrow> quantities_positive (kl_apply_drying_if_enabled g s now d)"
  by (simp_all add: kl_apply_drying_cases ensure_settings_keeps kl_mark_dried_keys_ok
      kl_mark_dried_positive)

lemma kl_apply_drying_tables:
  "kl_pantry (kl_apply_drying_if_enabled g s now d) = kl_pantry d"
  "fbh_batches (kl_apply_drying_if_enabled g s now d) = fbh_batches d"
  "map (\<lambda>r. r\<lparr>l_state := Frisch\<rparr>) (kl_herb_lots (kl_apply_drying_if_enabled g s now d))
     = map (\<lambda>r. r\<lparr>l_state := Frisch\<rparr>) (kl_herb_lots d)"
  by (simp_all add: kl_apply_drying_cases ensure_settings_tables kl_mark_dried_older_than_def)

lemma check_availability_shortfalls:
  "check_availability allowed sid menge items d
     = List.map_filter (shortfall allowed sid menge d) items"
proof (induction items)
  case Nil
  then show ?case by simp
next
  case (Cons a items)
  obtain h b where a: "a = (h, b)" by (cases a)
  show ?case by (simp add: a Cons.IH shortfall_def Let_def)
qed

lemma shortfall_None: "shortfall allowed sid menge d item = None \<longleftrightarrow> feasible allowed sid menge d item"
  by (auto simp: shortfall_def feasible_def)

lemma map_filter_empty_iff: "List.map_filter f xs = [] \<longleftrightarrow> (\<forall>x\<in>set xs. f x = None)"
  by (induction xs) (auto split: option.splits)

lemma allowed_map_of_key: "allowed_map_of xs k = Some x \<Longrightarrow> norm_key x = k"
  by (auto simp: allowed_map_of_def dest!: map_of_SomeD)

lemma canonical_key:
  "is_allowed h (allowed_map_of xs) \<Longrightarrow> norm_key (canonical h (allowed_map_of xs)) = norm_key h"
  by (auto simp: is_allowed_def canonical_def dest: allowed_map_of_key)

lemma subtract_ingredients_ok:
  assumes "0 < menge"
  shows "keys_ok d \<Longrightarrow> quantities_positive d \<Longrightarrow>
         distinct (map (\<lambda>item. norm_key (fst item)) items) \<Longrightarrow>
         \<forall>item\<in>set items. feasible (allowed_map_of xs) sid menge d item \<and> 0 \<le> snd item \<Longrightarrow>
         fst (subtract_ingredients (allowed_map_of xs) sid menge items d)
         \<and> keys_ok (snd (subtract_ingredients (allowed_map_of xs) sid menge items d))
         \<and> quantities_positive (snd (subtract_ingredients (allowed_map_of xs) sid menge items d))
         \<and> kl_pantry (snd (subtract_ingredients (allowed_map_of xs) sid menge items d)) = kl_pantry d
         \<and> fbh_batches (snd (subtract_ingredients (allowed_map_of xs) sid menge items d)) = fbh_batches d
         \<and> guild_settings (snd (subtract_ingredients (allowed_map_of xs) sid menge items d))
             = guild_settings d
         \<and> (\<forall>sid' k. kl_total_available sid' k
                        (snd (subtract_ingredients (allowed_map_of xs) sid menge items d))
               = kl_total_available sid' k d
                 - (if sid' = sid then sum_list (map (\<lambda>item. snd item * menge)
                                         (filter (\<lambda>item. norm_key (fst item) = k) items))
                    else 0))"
proof (induction items arbitrary: d)
  case Nil
  then show ?case by simp
next
  case (Cons a items)
  obtain h b where a: "a = (h, b)" by (cases a)
  let ?al = "allowed_map_of xs"
  let ?need = "b * menge"
  let ?tk = "kl_take_herb sid (canonical h ?al) ?need d"
  let ?d' = "snd ?tk"
  have dl: "distinct (map l_id (kl_herb_lots d))" using Cons.prems(1) by (simp add: keys_ok_def)
  from Cons.prems(4) have feas: "feasible ?al sid menge d (h, b)" and b0: "0 \<le> b"
    by (simp_all add: a)
  then have ck: "norm_key (canonical h ?al) = norm_key h"
    by (simp add: feasible_def canonical_key)
  have need0: "0 \<le> ?need" using b0 assms by simp
  have amount: "fst ?tk = ?need"
    using Cons.prems(1,2) need0 feas by (intro kl_take_herb_amount) (simp_all add: ck feasible_def)
  have k': "keys_ok ?d'" and p': "quantities_positive ?d'"
    using Cons.prems(1,2) by (simp_all add: kl_take_herb_keys_ok kl_take_herb_positive)
  have same: "kl_total_available sid (norm_key h) ?d' = kl_total_available sid (norm_key h) d - ?need"
    using kl_take_herb_total_same_key [OF dl, of sid "canonical h ?al" ?need] amount
    by (simp add: ck)
  have other: "kl_total_available sid' k ?d' = kl_total_available sid' k d"
    if "sid' \<noteq> sid \<or> k \<noteq> norm_key h" for sid' k
    using kl_take_herb_total_other [OF dl, of sid' sid k "canonical h ?al" ?need] that
    by (simp add: ck)
  have tot: "kl_total_available sid' k ?d'
             = kl_total_available sid' k d - (if sid' = sid \<and> norm_key h = k then ?need else 0)"
    for sid' k
    using same other [of sid' k] by auto
  have di: "distinct (map (\<lambda>item. norm_key (fst item)) items)"
    and hn: "norm_key h \<notin> (\<lambda>item. norm_key (fst item)) ` set items"
    using Cons.prems(3) by (simp_all add: a)
  have feas': "\<forall>item\<in>set items. feasible ?al sid menge ?d' item \<and> 0 \<le> snd item"
  proof
    fix item assume it: "item \<in> set items"
    with hn have "norm_key (fst item) \<noteq> norm_key h" by (metis imageI)
    then have "kl_total_available sid (norm_key (fst item)) ?d'
               = kl_total_available sid (norm_key (fst item)) d"
      by (intro other) simp
    with Cons.prems(4) it show "feasible ?al sid menge ?d' item \<and> 0 \<le> snd item"
      by (simp add: feasible_def)
  qed
  note IH = Cons.IH [OF k' p' di feas']
  have step: "subtract_ingredients ?al sid menge (a # items) d
              = subtract_ingredients ?al sid menge items ?d'"
    using amount by (cases ?tk) (simp add: a Let_def)
  have oth: "kl_pantry ?d' = kl_pantry d" "fbh_batches ?d' = fbh_batches d"
    "guild_settings ?d' = guild_settings d"
    using kl_take_herb_others [OF Cons.prems(1)] by simp_all
  show ?case
    unfolding step using IH by (auto simp: oth tot a)
qed

lemma sum_single_key:
  assumes "distinct (map (\<lambda>item. norm_key (fst item)) items)" "item \<in> set items"
  shows "filter (\<lambda>i. norm_key (fst i) = norm_key (fst item)) items = [item]"
  using assms
proof (induction items)
  case Nil
  then show ?case by simp
next
  case (Cons a items)
  show ?case
  proof (cases "a = item")
    case True
    with Cons.prems(1) have "filter (\<lambda>i. norm_key (fst i) = norm_key (fst item)) items = []"
      by (auto simp: filter_empty_conv image_iff)
    with True show ?thesis by simp
  next
    case False
    with Cons.prems have "item \<in> set items" "norm_key (fst a) \<noteq> norm_key (fst item)"
      by (auto simp: image_iff)
    with Cons show ?thesis by simp
  qed
qed

lemma shortfall_drying:
  "shortfall allowed sid menge (kl_apply_drying_if_enabled g s now d) item
     = shortfall allowed sid menge d item"
  by (simp add: shortfall_def kl_total_available_drying)

lemma feasible_drying:
  "feasible allowed sid menge (kl_apply_drying_if_enabled g s now d) item
     = feasible allowed sid menge d item"
  by (simp add: feasible_def kl_total_available_drying)

text \<open>
  C1. For a positive multiplier and a recipe of the table, if some ingredient is not
  in the allowed set or is available (fresh and dried together) in a smaller quantity
  than its quantity per unit times the multiplier, crafting answers with the list of
  failures, which is not empty and holds, in the recipe's order, one entry for each
  such ingredient: its name when it is not allowed, and otherwise its name with what
  is missing (required less available), what is required and what is available. The
  database it leaves is the one the aging wrapper left before the check: every lot
  holds the quantity and every other column but the state it had, the pantry and the
  batches are as they were, and so is every available total.
\<close>

theorem C1_craft_atomic_on_failure:
  assumes "0 < menge" "map_of (KL_RECIPES cfg) rezept = Some recipe"
    and "\<exists>item\<in>set recipe. \<not> feasible (ALLOWED_KL_SET cfg) sid menge d item"
  shows "fst (kl_herstellen cfg g sid user rezept menge now d)
           = Nicht_genug_Zutaten (List.map_filter (shortfall (ALLOWED_KL_SET cfg) sid menge d) recipe)
     \<and> List.map_filter (shortfall (ALLOWED_KL_SET cfg) sid menge d) recipe \<noteq> []
     \<and> (\<forall>item\<in>set recipe. \<not> is_allowed (fst item) (ALLOWED_KL_SET cfg) \<longrightarrow>
           Nicht_erlaubt (fst item)
             \<in> set (List.map_filter (shortfall (ALLOWED_KL_SET cfg) sid menge d) recipe))
     \<and> (\<forall>item\<in>set recipe. is_allowed (fst item) (ALLOWED_KL_SET cfg)
             \<and> kl_total_available sid (norm_key (fst item)) d < snd item * menge \<longrightarrow>
           Fehlt (fst item) (snd item * menge - kl_total_available sid (norm_key (fst item)) d)
                 (snd item * menge) (kl_total_available sid (norm_key (fst item)) d)
             \<in> set (List.map_filter (shortfall (ALLOWED_KL_SET cfg) sid menge d) recipe))
     \<and> snd (kl_herstellen cfg g sid user rezept menge now d)
           = kl_apply_drying_if_enabled g sid now d
     \<and> map l_qty (kl_herb_lots (snd (kl_herstellen cfg g sid user rezept menge now d)))
           = map l_qty (kl_herb_lots d)
     \<and> map (\<lambda>r. r\<lparr>l_state := Frisch\<rparr>)
           (kl_herb_lots (snd (kl_herstellen cfg g sid user rezept menge now d)))
           = map (\<lambda>r. r\<lparr>l_state := Frisch\<rparr>) (kl_herb_lots d)
     \<and> kl_pantry (snd (kl_herstellen cfg g sid user rezept menge now d)) = kl_pantry d
     \<and> fbh_batches (snd (kl_herstellen cfg g sid user rezept menge now d)) = fbh_batches d
     \<and> (\<forall>sid' k. kl_total_available sid' k (snd (kl_herstellen cfg g sid user rezept menge now d))
                    = kl_total_available sid' k d)"
proof -
  let ?al = "ALLOWED_KL_SET cfg"
  let ?d1 = "kl_apply_drying_if_enabled g sid now d"
  let ?missing = "List.map_filter (shortfall ?al sid menge d) recipe"
  have chk: "check_availability ?al sid menge recipe ?d1 = ?missing"
    by (simp add: check_availability_shortfalls shortfall_drying [abs_def])
  have ne: "?missing \<noteq> []"
    using assms(3) by (auto simp: map_filter_empty_iff shortfall_None)
  have res: "kl_herstellen cfg g sid user rezept menge now d = (Nicht_genug_Zutaten ?missing, ?d1)"
    using assms(1,2) ne by (simp add: kl_herstellen_def chk Let_def)
  have m1: "\<forall>item\<in>set recipe. \<not> is_allowed (fst item) ?al \<longrightarrow> Nicht_erlaubt (fst item) \<in> set ?missing"
    by (auto simp: set_map_filter shortfall_def)
  have m2: "\<forall>item\<in>set recipe. is_allowed (fst item) ?al
             \<and> kl_total_available sid (norm_key (fst item)) d < snd item * menge \<longrightarrow>
           Fehlt (fst item) (snd item * menge - kl_total_available sid (norm_key (fst item)) d)
                 (snd item * menge) (kl_total_available sid (norm_key (fst item)) d)
             \<in> set ?missing"
    by (auto simp: set_map_filter shortfall_def)
  have q: "map l_qty (kl_herb_lots ?d1) = map l_qty (kl_herb_lots d)"
  proof -
    have "map (\<lambda>r. l_qty (r\<lparr>l_state := Frisch\<rparr>)) (kl_herb_lots ?d1)
          = map (\<lambda>r. l_qty (r\<lparr>l_state := Frisch\<rparr>)) (kl_herb_lots d)"
      using arg_cong [OF kl_apply_drying_tables(3) [of g sid now d], of "map l_qty"]
      by (simp add: comp_def)
    then show ?thesis by simp
  qed
  from ne m1 m2 q show ?thesis
    by (simp add: res kl_apply_drying_tables kl_total_available_drying)
qed

theorem C1_craft_atomic_on_failure_witness:
  "map_of (KL_RECIPES herb_config) ''Reisekraut'' = Some [(''Basil'', 2), (''Thyme'', 1)]
   \<and> kl_total_available 3 ''basil'' basil_5_thyme_10 = 5
   \<and> kl_total_available 3 ''thyme'' basil_5_thyme_10 = 10
   \<and> \<not> feasible (ALLOWED_KL_SET herb_config) 3 3 basil_5_thyme_10 (''Basil'', 2)
   \<and> fst (kl_herstellen herb_config 9 3 7 ''Reisekraut'' 3 1000 basil_5_thyme_10)
       = Nicht_genug_Zutaten [Fehlt ''Basil'' 1 6 5]
   \<and> kl_total_available 3 ''basil''
        (snd (kl_herstellen herb_config 9 3 7 ''Reisekraut'' 3 1000 basil_5_thyme_10)) = 5
   \<and> kl_total_available 3 ''thyme''
        (snd (kl_herstellen herb_config 9 3 7 ''Reisekraut'' 3 1000 basil_5_thyme_10)) = 10
   \<and> map l_qty (kl_herb_lots
        (snd (kl_herstellen herb_config 9 3 7 ''Reisekraut'' 3 1000 basil_5_thyme_10)))
       = [3, 2, 10]"
proof -
  have r: "map_of (KL_RECIPES herb_config) ''Reisekraut'' = Some [(''Basil'', 2), (''Thyme'', 1)]"
    by code_simp
  have b: "kl_total_available 3 ''basil'' basil_5_thyme_10 = 5"
    and t: "kl_total_available 3 ''thyme'' basil_5_thyme_10 = 10"
    by code_simp+
  have nf: "\<not> feasible (ALLOWED_KL_SET herb_config) 3 3 basil_5_thyme_10 (''Basil'', 2)"
    by code_simp
  then have ex: "\<exists>item\<in>set [(''Basil'', 2), (''Thyme'', 1)].
                   \<not> feasible (ALLOWED_KL_SET herb_config) 3 3 basil_5_thyme_10 item"
    by simp
  have m: "(0::int) < 3" by simp
  note T = C1_craft_atomic_on_failure [OF m r ex, of 9 7 1000]
  have ms: "List.map_filter (shortfall (ALLOWED_KL_SET herb_config) 3 3 basil_5_thyme_10)
              [(''Basil'', 2), (''Thyme'', 1)] = [Fehlt ''Basil'' 1 6 5]"
    by code_simp
  have q: "map l_qty (kl_herb_lots basil_5_thyme_10) = [3, 2, 10]" by code_simp
  from T have "fst (kl_herstellen herb_config 9 3 7 ''Reisekraut'' 3 1000 basil_5_thyme_10)
       = Nicht_genug_Zutaten
           (List.map_filter (shortfall (ALLOWED_KL_SET herb_config) 3 3 basil_5_thyme_10)
              [(''Basil'', 2), (''Thyme'', 1)])"
    by (rule conjunct1)
  then have a1: "fst (kl_herstellen herb_config 9 3 7 ''Reisekraut'' 3 1000 basil_5_thyme_10)
       = Nicht_genug_Zutaten [Fehlt ''Basil'' 1 6 5]"
    unfolding ms .
  from T have tot: "\<forall>sid' k. kl_total_available sid' k
        (snd (kl_herstellen herb_config 9 3 7 ''Reisekraut'' 3 1000 basil_5_thyme_10))
         = kl_total_available sid' k basil_5_thyme_10"
    by blast
  from T have "map l_qty (kl_herb_lots
        (snd (kl_herstellen herb_config 9 3 7 ''Reisekraut'' 3 1000 basil_5_thyme_10)))
       = map l_qty (kl_herb_lots basil_5_thyme_10)"
    by blast
  then have a4: "map l_qty (kl_herb_lots
        (snd (kl_herstellen herb_config 9 3 7 ''Reisekraut'' 3 1000 basil_5_thyme_10)))
       = [3, 2, 10]"
    unfolding q .
  from r b t nf a1 a4 tot show ?thesis by simp
qed

lemma pantry_filter_unique:
  "distinct (map (\<lambda>r. (p_storage_id r, p_item_key r)) T) \<Longrightarrow>
   find (\<lambda>r. p_storage_id r = sid \<and> p_item_key r = k) T = Some row \<Longrightarrow>
   filter (\<lambda>r. p_storage_id r = sid \<and> p_item_key r = k) T = [row]"
proof (induction T)
  case Nil
  then show ?case by simp
next
  case (Cons a T)
  show ?case
  proof (cases "p_storage_id a = sid \<and> p_item_key a = k")
    case True
    with Cons.prems(1) have "filter (\<lambda>r. p_storage_id r = sid \<and> p_item_key r = k) T = []"
      by (auto simp: filter_empty_conv image_iff)
    with True Cons.prems(2) show ?thesis by simp
  next
    case False
    with Cons show ?thesis by auto
  qed
qed

lemma pantry_add_entry:
  assumes "distinct (map (\<lambda>r. (p_storage_id r, p_item_key r)) (kl_pantry d))"
  shows "map p_qty (filter (\<lambda>r. p_storage_id r = sid \<and> p_item_key r = norm_key name)
                      (kl_pantry (pantry_add sid name q u now d)))
         = [(case find (\<lambda>r. p_storage_id r = sid \<and> p_item_key r = norm_key name) (kl_pantry d) of
               None \<Rightarrow> 0 | Some row \<Rightarrow> p_qty row) + q]"
    and "filter (\<lambda>r. \<not> (p_storage_id r = sid \<and> p_item_key r = norm_key name))
                      (kl_pantry (pantry_add sid name q u now d))
         = filter (\<lambda>r. \<not> (p_storage_id r = sid \<and> p_item_key r = norm_key name)) (kl_pantry d)"
proof -
  let ?P = "\<lambda>r. p_storage_id r = sid \<and> p_item_key r = norm_key name"
  show "map p_qty (filter ?P (kl_pantry (pantry_add sid name q u now d)))
         = [(case find ?P (kl_pantry d) of None \<Rightarrow> 0 | Some row \<Rightarrow> p_qty row) + q]"
  proof (cases "find ?P (kl_pantry d)")
    case None
    then have "filter ?P (kl_pantry d) = []"
      by (auto simp: find_None_iff filter_empty_conv)
    with None show ?thesis by (simp add: pantry_add_def)
  next
    case (Some row)
    have "filter ?P (map (\<lambda>r. if ?P r then r\<lparr>p_qty := n, p_updated_at := now, p_updated_by := u\<rparr>
                              else r) T)
          = map (\<lambda>r. r\<lparr>p_qty := n, p_updated_at := now, p_updated_by := u\<rparr>) (filter ?P T)" for n T
      by (induction T) auto
    note fm = this
    have "kl_pantry (pantry_add sid name q u now d)
          = map (\<lambda>r. if ?P r then r\<lparr>p_qty := p_qty row + q, p_updated_at := now,
                                     p_updated_by := u\<rparr> else r) (kl_pantry d)"
      using Some by (simp add: pantry_add_def Let_def)
    then have "filter ?P (kl_pantry (pantry_add sid name q u now d))
          = [row\<lparr>p_qty := p_qty row + q, p_updated_at := now, p_updated_by := u\<rparr>]"
      by (simp only: fm pantry_filter_unique [OF assms Some] list.map)
    with Some show ?thesis by simp
  qed
  show "filter (\<lambda>r. \<not> ?P r) (kl_pantry (pantry_add sid name q u now d))
         = filter (\<lambda>r. \<not> ?P r) (kl_pantry d)"
  proof (cases "find ?P (kl_pantry d)")
    case None
    then show ?thesis by (simp add: pantry_add_def)
  next
    case (Some row)
    have "filter (\<lambda>r. \<not> ?P r)
            (map (\<lambda>r. if ?P r then r\<lparr>p_qty := n, p_updated_at := now, p_updated_by := u\<rparr>
                      else r) T)
          = filter (\<lambda>r. \<not> ?P r) T" for n T
      by (induction T) auto
    note fm = this
    have "kl_pantry (pantry_add sid name q u now d)
          = map (\<lambda>r. if ?P r then r\<lparr>p_qty := p_qty row + q, p_updated_at := now,
                                     p_updated_by := u\<rparr> else r) (kl_pantry d)"
      using Some by (simp add: pantry_add_def Let_def)
    then show ?thesis by (simp only: fm)
  qed
qed

lemma pantry_add_others:
  "kl_herb_lots (pantry_add sid name q u now d) = kl_herb_lots d"
  "fbh_batches (pantry_add sid name q u now d) = fbh_batches d"
  by (simp_all add: pantry_add_def Let_def split: option.splits)

text \<open>
  C8, as amended. For a database that meets the schema's key constraints and holds
  positive quantities, a positive multiplier and a recipe of the table whose
  quantities per unit are not negative and whose ingredient names have pairwise
  different normalised keys: when every ingredient is allowed and available in at
  least its quantity per unit times the multiplier, crafting answers that the recipe
  was made; the available total of each ingredient in the storage has dropped by
  exactly its quantity per unit times the multiplier, and every other total is as it
  was; the pantry row of the storage whose key is the recipe's normalised name holds
  what it held before, or 0 if there was none, plus exactly the multiplier; every
  other pantry row and every batch is as it was.
\<close>

theorem C8_craft_success:
  assumes "keys_ok d" "quantities_positive d" "0 < menge"
    and "map_of (KL_RECIPES cfg) rezept = Some recipe"
    and "\<forall>item\<in>set recipe. feasible (ALLOWED_KL_SET cfg) sid menge d item"
    and "distinct (map (\<lambda>item. norm_key (fst item)) recipe)"
    and "\<forall>item\<in>set recipe. 0 \<le> snd item"
  shows "fst (kl_herstellen cfg g sid user rezept menge now d) = Hergestellt rezept menge
     \<and> (\<forall>item\<in>set recipe.
          kl_total_available sid (norm_key (fst item))
            (snd (kl_herstellen cfg g sid user rezept menge now d))
          = kl_total_available sid (norm_key (fst item)) d - snd item * menge)
     \<and> (\<forall>sid' k. sid' \<noteq> sid \<or> k \<notin> (\<lambda>item. norm_key (fst item)) ` set recipe \<longrightarrow>
          kl_total_available sid' k (snd (kl_herstellen cfg g sid user rezept menge now d))
          = kl_total_available sid' k d)
     \<and> map p_qty (filter (\<lambda>r. p_storage_id r = sid \<and> p_item_key r = norm_key rezept)
                      (kl_pantry (snd (kl_herstellen cfg g sid user rezept menge now d))))
         = [(case find (\<lambda>r. p_storage_id r = sid \<and> p_item_key r = norm_key rezept) (kl_pantry d) of
               None \<Rightarrow> 0 | Some row \<Rightarrow> p_qty row) + menge]
     \<and> filter (\<lambda>r. \<not> (p_storage_id r = sid \<and> p_item_key r = norm_key rezept))
                      (kl_pantry (snd (kl_herstellen cfg g sid user rezept menge now d)))
         = filter (\<lambda>r. \<not> (p_storage_id r = sid \<and> p_item_key r = norm_key rezept)) (kl_pantry d)
     \<and> fbh_batches (snd (kl_herstellen cfg g sid user rezept menge now d)) = fbh_batches d"
proof -
  let ?al = "ALLOWED_KL_SET cfg"
  let ?d1 = "kl_apply_drying_if_enabled g sid now d"
  let ?sub = "subtract_ingredients ?al sid menge recipe ?d1"
  let ?d2 = "snd ?sub"
  let ?d3 = "pantry_add sid rezept menge user now ?d2"
  have al: "?al = allowed_map_of (ALLOWED_KL_HERBS cfg)" by (simp add: ALLOWED_KL_SET_def)
  have k1: "keys_ok ?d1" and p1: "quantities_positive ?d1"
    using assms(1,2) by (simp_all add: kl_apply_drying_keeps)
  have chk: "check_availability ?al sid menge recipe ?d1 = []"
    using assms(5)
    by (simp add: check_availability_shortfalls map_filter_empty_iff shortfall_None feasible_drying)
  have f1: "\<forall>item\<in>set recipe. feasible (allowed_map_of (ALLOWED_KL_HERBS cfg)) sid menge ?d1 item
              \<and> 0 \<le> snd item"
    using assms(5,7) by (simp add: feasible_drying al)
  note S = subtract_ingredients_ok [OF assms(3) k1 p1 assms(6) f1, folded al]
  from S have ok: "fst ?sub" by blast
  from S have pantry2: "kl_pantry ?d2 = kl_pantry d" and batches2: "fbh_batches ?d2 = fbh_batches d"
    by (simp_all add: kl_apply_drying_tables)
  from S have tot2: "\<forall>sid' k. kl_total_available sid' k ?d2
               = kl_total_available sid' k d
                 - (if sid' = sid then sum_list (map (\<lambda>item. snd item * menge)
                                         (filter (\<lambda>item. norm_key (fst item) = k) recipe))
                    else 0)"
    by (simp add: kl_total_available_drying)
  from S have k2: "keys_ok ?d2" by blast
  have res: "kl_herstellen cfg g sid user rezept menge now d = (Hergestellt rezept menge, ?d3)"
    using assms(3,4) chk ok by (cases ?sub) (simp add: kl_herstellen_def Let_def)
  have tot3: "kl_total_available sid' k ?d3 = kl_total_available sid' k ?d2" for sid' k
    by (simp add: kl_total_available_def pantry_add_others)
  have c2: "\<forall>item\<in>set recipe.
          kl_total_available sid (norm_key (fst item)) ?d3
          = kl_total_available sid (norm_key (fst item)) d - snd item * menge"
  proof
    fix item assume "item \<in> set recipe"
    from sum_single_key [OF assms(6) this] tot2
    show "kl_total_available sid (norm_key (fst item)) ?d3
          = kl_total_available sid (norm_key (fst item)) d - snd item * menge"
      by (simp add: tot3)
  qed
  have c3: "\<forall>sid' k. sid' \<noteq> sid \<or> k \<notin> (\<lambda>item. norm_key (fst item)) ` set recipe \<longrightarrow>
          kl_total_available sid' k ?d3 = kl_total_available sid' k d"
  proof (intro allI impI)
    fix sid' k assume h: "sid' \<noteq> sid \<or> k \<notin> (\<lambda>item. norm_key (fst item)) ` set recipe"
    have "sid' = sid \<Longrightarrow> filter (\<lambda>item. norm_key (fst item) = k) recipe = []"
      using h by (auto simp: filter_empty_conv)
    with tot2 show "kl_total_available sid' k ?d3 = kl_total_available sid' k d"
      by (simp add: tot3)
  qed
  have dp: "distinct (map (\<lambda>r. (p_storage_id r, p_item_key r)) (kl_pantry ?d2))"
    using k2 by (simp add: keys_ok_def)
  from pantry_add_entry [OF dp, of sid rezept menge user now] c2 c3
  show ?thesis
    by (simp add: res pantry2 batches2 pantry_add_others)
qed

theorem C8_craft_success_witness:
  "keys_ok basil_6_thyme_10 \<and> quantities_positive basil_6_thyme_10
   \<and> map_of (KL_RECIPES herb_config) ''Reisekraut'' = Some [(''Basil'', 2), (''Thyme'', 1)]
   \<and> list_all (feasible (ALLOWED_KL_SET herb_config) 3 3 basil_6_thyme_10)
        [(''Basil'', 2), (''Thyme'', 1)]
   \<and> kl_total_available 3 ''basil'' basil_6_thyme_10 = 6
   \<and> kl_total_available 3 ''thyme'' basil_6_thyme_10 = 10
   \<and> fst (kl_herstellen herb_config 9 3 7 ''Reisekraut'' 3 1000 basil_6_thyme_10)
       = Hergestellt ''Reisekraut'' 3
   \<and> kl_total_available 3 ''basil''
        (snd (kl_herstellen herb_config 9 3 7 ''Reisekraut'' 3 1000 basil_6_thyme_10)) = 0
   \<and> kl_total_available 3 ''thyme''
        (snd (kl_herstellen herb_config 9 3 7 ''Reisekraut'' 3 1000 basil_6_thyme_10)) = 7
   \<and> map (\<lambda>r. (p_item_key r, p_qty r))
        (kl_pantry (snd (kl_herstellen herb_config 9 3 7 ''Reisekraut'' 3 1000 basil_6_thyme_10)))
       = [(''reisekraut'', 3)]"
proof -
  have k: "keys_ok basil_6_thyme_10" and p: "quantities_positive basil_6_thyme_10"
    by code_simp+
  have r: "map_of (KL_RECIPES herb_config) ''Reisekraut'' = Some [(''Basil'', 2), (''Thyme'', 1)]"
    by code_simp
  have f: "list_all (feasible (ALLOWED_KL_SET herb_config) 3 3 basil_6_thyme_10)
        [(''Basil'', 2), (''Thyme'', 1)]"
    by code_simp
  then have f': "\<forall>item\<in>set [(''Basil'', 2), (''Thyme'', 1)].
                  feasible (ALLOWED_KL_SET herb_config) 3 3 basil_6_thyme_10 item"
    by (simp only: list_all_iff)
  have dn: "distinct (map (\<lambda>item. norm_key (fst item)) [(''Basil'', 2), (''Thyme'', 1 :: int)])"
    by code_simp
  have nn: "\<forall>item\<in>set [(''Basil'', 2), (''Thyme'', 1 :: int)]. 0 \<le> snd item"
    by simp
  have m: "(0::int) < 3" by simp
  note T = C8_craft_success [OF k p m r f' dn nn, of 9 7 1000]
  have b: "kl_total_available 3 ''basil'' basil_6_thyme_10 = 6"
    and t: "kl_total_available 3 ''thyme'' basil_6_thyme_10 = 10"
    and nb: "norm_key ''Basil'' = ''basil''" and nt: "norm_key ''Thyme'' = ''thyme''"
    by code_simp+
  from T have a1: "fst (kl_herstellen herb_config 9 3 7 ''Reisekraut'' 3 1000 basil_6_thyme_10)
       = Hergestellt ''Reisekraut'' 3"
    by (rule conjunct1)
  from T have "\<forall>item\<in>set [(''Basil'', 2), (''Thyme'', 1)].
          kl_total_available 3 (norm_key (fst item))
            (snd (kl_herstellen herb_config 9 3 7 ''Reisekraut'' 3 1000 basil_6_thyme_10))
          = kl_total_available 3 (norm_key (fst item)) basil_6_thyme_10 - snd item * 3"
    by blast
  then have a2: "kl_total_available 3 ''basil''
        (snd (kl_herstellen herb_config 9 3 7 ''Reisekraut'' 3 1000 basil_6_thyme_10)) = 0"
    and a3: "kl_total_available 3 ''thyme''
        (snd (kl_herstellen herb_config 9 3 7 ''Reisekraut'' 3 1000 basil_6_thyme_10)) = 7"
    by (simp_all add: nb nt b t)
  have a4: "map (\<lambda>r. (p_item_key r, p_qty r))
        (kl_pantry (snd (kl_herstellen herb_config 9 3 7 ''Reisekraut'' 3 1000 basil_6_thyme_10)))
       = [(''reisekraut'', 3)]"
    by code_simp
  from k p r f b t a1 a2 a3 a4 show ?thesis by blast
qed

text \<open>
  The claim as stated fails in two ways. A recipe that names one herb under two
  spellings passes the check for each spelling alone, but the second take finds the
  stock already used: with one Minze in store, the recipe of one ``Minze'' and one
  ``minze'' ends in the unexpected-error answer, the Minze is gone and the pantry is
  empty. And a recipe with a negative quantity per unit passes the check, but the take
  of a negative amount returns 0, which is not the amount needed.
\<close>

theorem C8_craft_counterexample:
  "keys_ok minze_1 \<and> quantities_positive minze_1
   \<and> map_of (KL_RECIPES herb_config) ''Doppelminze'' = Some [(''Minze'', 1), (''minze'', 1)]
   \<and> list_all (feasible (ALLOWED_KL_SET herb_config) 3 1 minze_1) [(''Minze'', 1), (''minze'', 1)]
   \<and> kl_total_available 3 ''minze'' minze_1 = 1
   \<and> fst (kl_herstellen herb_config 9 3 7 ''Doppelminze'' 1 1000 minze_1) = Unerwarteter_Fehler
   \<and> kl_total_available 3 ''minze''
        (snd (kl_herstellen herb_config 9 3 7 ''Doppelminze'' 1 1000 minze_1)) = 0
   \<and> kl_pantry (snd (kl_herstellen herb_config 9 3 7 ''Doppelminze'' 1 1000 minze_1)) = []
   \<and> map_of (KL_RECIPES herb_config) ''Unsinn'' = Some [(''Minze'', - 1)]
   \<and> list_all (feasible (ALLOWED_KL_SET herb_config) 3 1 minze_1) [(''Minze'', - 1)]
   \<and> fst (kl_herstellen herb_config 9 3 7 ''Unsinn'' 1 1000 minze_1) = Unerwarteter_Fehler
   \<and> kl_pantry (snd (kl_herstellen herb_config 9 3 7 ''Unsinn'' 1 1000 minze_1)) = []"
  by code_simp

end
